theory Spec2Isabelle
  imports
    Complex_Main
    "HOL-Library.Monad_Syntax"
    "HOL-Library.Char_ord"
    "HOL-Library.List_Lexorder"
    "HOL-Library.Sublist"
    "HOL-Library.Multiset"
begin

section \<open>JavaScript values\<close>

text \<open>
  The entity pipeline of \<^verbatim>\<open>routes/anonymize.js\<close>, the markup annotator of
  \<^verbatim>\<open>utils/anonymizerUtils.js\<close> (and its second copy) and the result signature of
  \<^verbatim>\<open>components/Anonymizer/index.js\<close> work on values that come out of \<^verbatim>\<open>JSON.parse\<close>,
  so the model has one type of JavaScript values.

  A number is a double. Every finite double is a rational, comparison of doubles is
  comparison of these rationals, and \<open>-0\<close> equals \<open>0\<close>: a finite number is modelled by its
  exact rational value, next to the three non-finite values.

  A string is a sequence of code units, modelled by \<open>string\<close>.
\<close>

datatype jsnum = Fin rat | NaN | PosInf | NegInf

datatype jsval =
    JUndefined
  | JNull
  | JBool bool
  | JNum jsnum
  | JStr string
  | JArr "jsval list"
  | JObj "(string \<times> jsval) list"

text \<open>
  Built-ins of the JavaScript host whose tables (Unicode case mapping, Unicode
  normalisation, decimal-to-double conversion and back) are no part of the repository are
  parameters of the model. Every theorem below that is stated for a host \<open>H\<close> holds for
  every host; the evaluations name the host they are made on.
\<close>

record host =
  toLowerCase :: "string \<Rightarrow> string"
  toUpperCase :: "string \<Rightarrow> string"
  normalizeNFC :: "string \<Rightarrow> string"
  parseFloat :: "string \<Rightarrow> jsnum"
  stringToNumber :: "string \<Rightarrow> jsnum"
  fractionToString :: "rat \<Rightarrow> string"

text \<open>\<^verbatim>\<open>typeof v\<close>; \<^verbatim>\<open>typeof null\<close> is \<^verbatim>\<open>"object"\<close>, and so is the type of an array.\<close>

fun typeof :: "jsval \<Rightarrow> string" where
  "typeof JUndefined = ''undefined''"
| "typeof JNull = ''object''"
| "typeof (JBool b) = ''boolean''"
| "typeof (JNum n) = ''number''"
| "typeof (JStr s) = ''string''"
| "typeof (JArr xs) = ''object''"
| "typeof (JObj kvs) = ''object''"

text \<open>The truthiness of a value, as \<^verbatim>\<open>!v\<close>, \<^verbatim>\<open>Boolean(v)\<close> and \<^verbatim>\<open>v && ...\<close> read it.\<close>

fun truthy :: "jsval \<Rightarrow> bool" where
  "truthy JUndefined = False"
| "truthy JNull = False"
| "truthy (JBool b) = b"
| "truthy (JNum (Fin q)) = (q \<noteq> 0)"
| "truthy (JNum NaN) = False"
| "truthy (JNum PosInf) = True"
| "truthy (JNum NegInf) = True"
| "truthy (JStr s) = (s \<noteq> [])"
| "truthy (JArr xs) = True"
| "truthy (JObj kvs) = True"

text \<open>
  Reading a property \<^verbatim>\<open>v.k\<close> (for the property names the code uses: none of them is
  an own property of an array or of a string). On \<^verbatim>\<open>null\<close> and \<^verbatim>\<open>undefined\<close> the read
  throws a TypeError, which is \<open>None\<close>; a missing property reads as \<^verbatim>\<open>undefined\<close>.
\<close>

definition lookup :: "(string \<times> jsval) list \<Rightarrow> string \<Rightarrow> jsval" where
  "lookup kvs k = (case map_of kvs k of None \<Rightarrow> JUndefined | Some v \<Rightarrow> v)"

fun getProp :: "jsval \<Rightarrow> string \<Rightarrow> jsval option" where
  "getProp JUndefined k = None"
| "getProp JNull k = None"
| "getProp (JObj kvs) k = Some (lookup kvs k)"
| "getProp v k = Some JUndefined"

text \<open>Optional chaining \<^verbatim>\<open>v?.k\<close>, and destructuring from \<^verbatim>\<open>v ?? {}\<close>.\<close>

fun optProp :: "jsval \<Rightarrow> string \<Rightarrow> jsval" where
  "optProp (JObj kvs) k = lookup kvs k"
| "optProp v k = JUndefined"

text \<open>\<^verbatim>\<open>Number.isFinite(v)\<close>: a number, and a finite one.\<close>

fun isFiniteNumber :: "jsval \<Rightarrow> bool" where
  "isFiniteNumber (JNum (Fin q)) = True"
| "isFiniteNumber v = False"

section \<open>Strings\<close>

text \<open>
  White space and line terminators of the code-unit range that \<open>char\<close> covers;
  \<^verbatim>\<open>String.prototype.trim\<close> strips them at both ends.
\<close>

definition isWhiteSpace :: "char \<Rightarrow> bool" where
  "isWhiteSpace c \<longleftrightarrow> (of_char c :: nat) \<in> {9, 10, 11, 12, 13, 32, 160}"

definition trim :: "string \<Rightarrow> string" where
  "trim s = rev (dropWhile isWhiteSpace (rev (dropWhile isWhiteSpace s)))"

text \<open>
  \<^verbatim>\<open>s.slice(start, end)\<close> for finite arguments: each argument is truncated towards zero,
  a negative index counts from the end, and both are clamped to the string.
\<close>

definition truncate :: "rat \<Rightarrow> int" where
  "truncate q = (if q < 0 then - \<lfloor>- q\<rfloor> else \<lfloor>q\<rfloor>)"

definition relativeIndex :: "nat \<Rightarrow> int \<Rightarrow> nat" where
  "relativeIndex len i = (if i < 0 then nat (max (int len + i) 0) else min (nat i) len)"

definition slice :: "string \<Rightarrow> rat \<Rightarrow> rat \<Rightarrow> string" where
  "slice s start end =
     (let from = relativeIndex (length s) (truncate start);
          to = relativeIndex (length s) (truncate end)
      in take (to - from) (drop from s))"

text \<open>
  \<^verbatim>\<open>s.split(/[...]+/)\<close> for a character class: the string is cut at every maximal run
  of separator characters; a run at either end leaves an empty first or last piece.
\<close>

function splitRuns :: "(char \<Rightarrow> bool) \<Rightarrow> string \<Rightarrow> string \<Rightarrow> string list" where
  "splitRuns sep piece [] = [rev piece]"
| "splitRuns sep piece (c # cs) =
     (if sep c then rev piece # splitRuns sep [] (dropWhile sep cs)
      else splitRuns sep (c # piece) cs)"
  by pat_completeness auto
termination
  by (relation "measure (\<lambda>(sep, piece, s). length s)")
     (auto simp: length_dropWhile_le less_Suc_eq_le)

definition split :: "(char \<Rightarrow> bool) \<Rightarrow> string \<Rightarrow> string list" where
  "split sep s = splitRuns sep [] s"

text \<open>
  The elements of a \<^verbatim>\<open>Set\<close> in insertion order: the first occurrence of each
  element of the list the set is built from.
\<close>

fun dedupe :: "'a list \<Rightarrow> 'a list \<Rightarrow> 'a list" where
  "dedupe seen [] = []"
| "dedupe seen (x # xs) =
     (if x \<in> set seen then dedupe seen xs else x # dedupe (x # seen) xs)"

definition newSet :: "'a list \<Rightarrow> 'a list" where
  "newSet xs = dedupe [] xs"

section \<open>Numbers as strings\<close>

text \<open>
  \<^verbatim>\<open>String(n)\<close> of a number, as a template literal and \<^verbatim>\<open>JSON.stringify\<close> print it.
  An integer below \<open>10\<^sup>2\<^sup>1\<close> in magnitude is printed in decimal; the shortest
  round-trip notation of every other finite number is the host's. (The digits printed are
  those of the exact value. From \<open>2\<^sup>5\<^sup>3\<close> on JavaScript prints the shortest digits that
  read back as the double, filled with zeros; the offsets and lengths printed here are
  far below.)
\<close>

function digitsOf :: "nat \<Rightarrow> string" where
  "digitsOf n =
     (if n < 10 then [''0123456789'' ! n]
      else digitsOf (n div 10) @ [''0123456789'' ! (n mod 10)])"
  by pat_completeness auto
termination
  by (relation "measure id") auto

declare digitsOf.simps [simp del]

definition isInteger :: "rat \<Rightarrow> bool" where
  "isInteger q \<longleftrightarrow> of_int \<lfloor>q\<rfloor> = q"

definition numberToString :: "host \<Rightarrow> jsnum \<Rightarrow> string" where
  "numberToString H n =
     (case n of
        NaN \<Rightarrow> ''NaN''
      | PosInf \<Rightarrow> ''Infinity''
      | NegInf \<Rightarrow> ''-Infinity''
      | Fin q \<Rightarrow>
          if isInteger q \<and> \<bar>q\<bar> < 10 ^ 21
          then (if q < 0 then ''-'' else []) @ digitsOf (nat \<bar>\<lfloor>q\<rfloor>\<bar>)
          else fractionToString H q)"

section \<open>Settings normalisation (routes/anonymize.js)\<close>

definition DEFAULT_ACCEPTANCE_THRESHOLD :: rat where
  "DEFAULT_ACCEPTANCE_THRESHOLD = 1 / 2"

text \<open>
  \<^verbatim>\<open>parsedThreshold\<close>: the raw threshold when it is a number, \<^verbatim>\<open>Number.parseFloat\<close>
  of it when it is a string, \<^verbatim>\<open>NaN\<close> otherwise.
\<close>

definition parsedThreshold :: "host \<Rightarrow> jsval \<Rightarrow> jsnum" where
  "parsedThreshold H rawThreshold =
     (case rawThreshold of
        JNum n \<Rightarrow> n
      | JStr s \<Rightarrow> parseFloat H s
      | _ \<Rightarrow> NaN)"

text \<open>
  \<^verbatim>\<open>acceptanceThreshold\<close>: the parsed threshold when it is finite and lies in
  \<open>[0, 1]\<close>, the default otherwise.
\<close>

definition acceptanceThreshold :: "host \<Rightarrow> jsval \<Rightarrow> rat" where
  "acceptanceThreshold H rawThreshold =
     (case parsedThreshold H rawThreshold of
        Fin p \<Rightarrow> if p \<ge> 0 \<and> p \<le> 1 then p else DEFAULT_ACCEPTANCE_THRESHOLD
      | _ \<Rightarrow> DEFAULT_ACCEPTANCE_THRESHOLD)"

section \<open>A reference host\<close>

text \<open>
  A host for evaluating the model on concrete inputs: case mapping of the ASCII
  letters, text that is already normalised, decimal literals read exactly, and finite
  decimal fractions printed digit by digit. It agrees with JavaScript on ASCII text and on
  decimals of at most 15 significant digits (a longer literal is read as its exact value,
  not rounded to the nearest double, and never overflows).
\<close>

definition asciiLower :: "char \<Rightarrow> char" where
  "asciiLower c =
     (case map_of (zip ''ABCDEFGHIJKLMNOPQRSTUVWXYZ'' ''abcdefghijklmnopqrstuvwxyz'') c of
        Some d \<Rightarrow> d
      | None \<Rightarrow> c)"

definition asciiUpper :: "char \<Rightarrow> char" where
  "asciiUpper c =
     (case map_of (zip ''abcdefghijklmnopqrstuvwxyz'' ''ABCDEFGHIJKLMNOPQRSTUVWXYZ'') c of
        Some d \<Rightarrow> d
      | None \<Rightarrow> c)"

definition isDigit :: "char \<Rightarrow> bool" where
  "isDigit c \<longleftrightarrow> c \<in> set ''0123456789''"

definition digitsValue :: "string \<Rightarrow> nat" where
  "digitsValue ds = foldl (\<lambda>a c. 10 * a + (of_char c - 48)) 0 ds"

definition scale10 :: "rat \<Rightarrow> int \<Rightarrow> rat" where
  "scale10 q e = (if e \<ge> 0 then q * 10 ^ nat e else q / 10 ^ nat (- e))"

definition skipSign :: "string \<Rightarrow> string" where
  "skipSign s = (case s of c # cs \<Rightarrow> if c = CHR ''-'' \<or> c = CHR ''+'' then cs else s | [] \<Rightarrow> [])"

definition isNegative :: "string \<Rightarrow> bool" where
  "isNegative s = (case s of c # cs \<Rightarrow> c = CHR ''-'' | [] \<Rightarrow> False)"

definition exponentPart :: "string \<Rightarrow> int" where
  "exponentPart s =
     (case s of
        [] \<Rightarrow> 0
      | c # cs \<Rightarrow>
          if c = CHR ''e'' \<or> c = CHR ''E''
          then (let ds = takeWhile isDigit (skipSign cs)
                in if ds = [] then 0
                   else if isNegative cs then - int (digitsValue ds)
                   else int (digitsValue ds))
          else 0)"

definition refParseFloat :: "string \<Rightarrow> jsnum" where
  "refParseFloat s =
     (let t = dropWhile isWhiteSpace s;
          u = skipSign t
      in if take 8 u = ''Infinity'' then (if isNegative t then NegInf else PosInf)
         else
           let ip = takeWhile isDigit u;
               r = dropWhile isDigit u;
               hasDot = (r \<noteq> [] \<and> hd r = CHR ''.'');
               fp = (if hasDot then takeWhile isDigit (tl r) else []);
               r2 = (if hasDot then dropWhile isDigit (tl r) else r);
               m = scale10 (of_nat (digitsValue (ip @ fp))) (exponentPart r2 - int (length fp))
           in if ip = [] \<and> fp = [] then NaN
              else Fin (if isNegative t then - m else m))"

text \<open>\<^verbatim>\<open>Number(s)\<close> for decimal literals: the whole trimmed string has to be one.\<close>

definition exponentRest :: "string \<Rightarrow> string" where
  "exponentRest s =
     (case s of
        [] \<Rightarrow> []
      | c # cs \<Rightarrow>
          if (c = CHR ''e'' \<or> c = CHR ''E'') \<and> takeWhile isDigit (skipSign cs) \<noteq> []
          then dropWhile isDigit (skipSign cs)
          else s)"

definition decimalRest :: "string \<Rightarrow> string" where
  "decimalRest t =
     (let u = skipSign t
      in if take 8 u = ''Infinity'' then drop 8 u
         else
           let r = dropWhile isDigit u;
               hasDot = (r \<noteq> [] \<and> hd r = CHR ''.'')
           in exponentRest (if hasDot then dropWhile isDigit (tl r) else r))"

definition refStringToNumber :: "string \<Rightarrow> jsnum" where
  "refStringToNumber s =
     (let t = trim s
      in if t = [] then Fin 0
         else if decimalRest t = [] then refParseFloat t
         else NaN)"

fun fractionDigits :: "nat \<Rightarrow> rat \<Rightarrow> string" where
  "fractionDigits 0 r = []"
| "fractionDigits (Suc fuel) r =
     (if r = 0 then []
      else (''0123456789'' ! nat \<lfloor>r * 10\<rfloor>) # fractionDigits fuel (r * 10 - of_int \<lfloor>r * 10\<rfloor>))"

definition refFractionToString :: "rat \<Rightarrow> string" where
  "refFractionToString q =
     (if q < 0 then ''-'' else []) @ digitsOf (nat \<lfloor>\<bar>q\<bar>\<rfloor>) @ ''.'' @
       fractionDigits 20 (\<bar>q\<bar> - of_int \<lfloor>\<bar>q\<bar>\<rfloor>)"

definition refHost :: host where
  "refHost =
     \<lparr> toLowerCase = map asciiLower,
       toUpperCase = map asciiUpper,
       normalizeNFC = (\<lambda>s. s),
       parseFloat = refParseFloat,
       stringToNumber = refStringToNumber,
       fractionToString = refFractionToString \<rparr>"

text \<open>
  A host whose lower-casing is not one code unit for one code unit, as
  \<^verbatim>\<open>String.prototype.toLowerCase\<close> is for U+0130 (capital I with dot above), which it
  turns into the two code units U+0069 U+0307. Characters here are bytes, so U+0130 is
  written as the byte \<open>0xDD\<close> and U+0307 as the byte \<open>0xCC\<close>; every other character is
  lower-cased as by the reference host.
\<close>

definition capitalDotI :: char where
  "capitalDotI = CHR 0xDD"

definition combiningDot :: char where
  "combiningDot = CHR 0xCC"

definition specialLower :: "string \<Rightarrow> string" where
  "specialLower s =
     concat (map (\<lambda>c. if c = capitalDotI then [CHR ''i'', combiningDot] else [asciiLower c]) s)"

definition specialCasingHost :: host where
  "specialCasingHost = refHost \<lparr> toLowerCase := specialLower \<rparr>"


section \<open>Term sets and entity types (routes/anonymize.js)\<close>

text \<open>\<^verbatim>\<open>normalizeListTerm\<close>: NFC, trim, lower case for a string; the empty string otherwise.\<close>

definition normalizeListTerm :: "host \<Rightarrow> jsval \<Rightarrow> string" where
  "normalizeListTerm H v =
     (case v of
        JStr s \<Rightarrow> toLowerCase H (trim (normalizeNFC H s))
      | _ \<Rightarrow> [])"

text \<open>\<^verbatim>\<open>TERM_SPLIT_REGEX = /[\n,]+/\<close> and \<^verbatim>\<open>ENTITY_TYPE_SPLIT_REGEX = /[\s,]+/\<close>.\<close>

definition isTermSeparator :: "char \<Rightarrow> bool" where
  "isTermSeparator c \<longleftrightarrow> c = CHR 0x0A \<or> c = CHR '',''"

definition isEntityTypeSeparator :: "char \<Rightarrow> bool" where
  "isEntityTypeSeparator c \<longleftrightarrow> isWhiteSpace c \<or> c = CHR '',''"

definition parseListInput :: "host \<Rightarrow> jsval \<Rightarrow> string list" where
  "parseListInput H input =
     (if \<not> truthy input then []
      else case input of
        JArr entries \<Rightarrow>
          filter (\<lambda>t. t \<noteq> [])
            (map (\<lambda>piece. normalizeListTerm H (JStr piece))
              (concat (map (\<lambda>entry. case entry of JStr s \<Rightarrow> split isTermSeparator s | _ \<Rightarrow> [])
                entries)))
      | JStr s \<Rightarrow>
          filter (\<lambda>t. t \<noteq> [])
            (map (\<lambda>piece. normalizeListTerm H (JStr piece)) (split isTermSeparator s))
      | _ \<Rightarrow> [])"

text \<open>A \<^verbatim>\<open>Set\<close> of terms is the list of its elements in insertion order.\<close>

definition buildTermSet :: "host \<Rightarrow> jsval \<Rightarrow> string list" where
  "buildTermSet H input = newSet (parseListInput H input)"

definition parseRequestedEntityTypes :: "host \<Rightarrow> jsval \<Rightarrow> string list" where
  "parseRequestedEntityTypes H input =
     (let values = (case input of JArr xs \<Rightarrow> xs | _ \<Rightarrow> [input])
      in newSet
           (filter (\<lambda>t. t \<noteq> [])
             (concat (map (\<lambda>v. case v of
                               JStr s \<Rightarrow>
                                 filter (\<lambda>t. t \<noteq> [])
                                   (map (\<lambda>part. toUpperCase H (trim part))
                                     (split isEntityTypeSeparator s))
                             | _ \<Rightarrow> [])
                values))))"

section \<open>The filter stages (routes/anonymize.js)\<close>

text \<open>
  A stage predicate is \<open>None\<close> when its evaluation throws. \<^verbatim>\<open>Array.prototype.filter\<close>
  calls the predicate on the elements from left to right, and a throw ends it.
\<close>

fun filterM :: "('a \<Rightarrow> bool option) \<Rightarrow> 'a list \<Rightarrow> 'a list option" where
  "filterM p [] = Some []"
| "filterM p (x # xs) =
     do { keep \<leftarrow> p x;
          rest \<leftarrow> filterM p xs;
          Some (if keep then x # rest else rest) }"

text \<open>
  The predicate of \<^verbatim>\<open>entityTypeFiltered\<close>. The set of requested types is \<open>None\<close>
  for \<^verbatim>\<open>null\<close> (no restriction).
\<close>

definition entityTypeKeep :: "host \<Rightarrow> string list option \<Rightarrow> jsval \<Rightarrow> bool option" where
  "entityTypeKeep H entityTypeFilterSet entity =
     (if \<not> truthy entity \<or> typeof entity \<noteq> ''object'' then Some False
      else case entityTypeFilterSet of
        None \<Rightarrow> Some True
      | Some types \<Rightarrow>
          do { t \<leftarrow> getProp entity ''entity_type'';
               Some ((case t of JStr s \<Rightarrow> toUpperCase H (trim s) | _ \<Rightarrow> []) \<in> set types) })"

text \<open>The score a record is judged by, and the predicate of \<^verbatim>\<open>thresholdFiltered\<close>.\<close>

definition parsedScore :: "host \<Rightarrow> jsval \<Rightarrow> jsnum" where
  "parsedScore H score =
     (case score of
        JNum n \<Rightarrow> n
      | JStr s \<Rightarrow> parseFloat H s
      | _ \<Rightarrow> NaN)"

definition thresholdKeep :: "host \<Rightarrow> rat \<Rightarrow> jsval \<Rightarrow> bool option" where
  "thresholdKeep H threshold entity =
     (if \<not> truthy entity \<or> typeof entity \<noteq> ''object'' then Some False
      else do { score \<leftarrow> getProp entity ''score'';
                Some (case parsedScore H score of
                        Fin s \<Rightarrow> s \<ge> threshold
                      | _ \<Rightarrow> True) })"

text \<open>
  \<^verbatim>\<open>sourceText.slice(start, end)\<close> on whatever the source text is: a string and an
  array have a \<^verbatim>\<open>slice\<close> method, every other value makes the call throw.
\<close>

definition sliceList :: "'a list \<Rightarrow> rat \<Rightarrow> rat \<Rightarrow> 'a list" where
  "sliceList xs start end =
     (let from = relativeIndex (length xs) (truncate start);
          to = relativeIndex (length xs) (truncate end)
      in take (to - from) (drop from xs))"

fun sliceOf :: "jsval \<Rightarrow> rat \<Rightarrow> rat \<Rightarrow> jsval option" where
  "sliceOf (JStr s) start end = Some (JStr (slice s start end))"
| "sliceOf (JArr xs) start end = Some (JArr (sliceList xs start end))"
| "sliceOf v start end = None"

definition shouldIncludeEntity ::
  "host \<Rightarrow> jsval \<Rightarrow> jsval \<Rightarrow> string list \<Rightarrow> string list \<Rightarrow> bool option" where
  "shouldIncludeEntity H entity sourceText allowlistSet denylistSet =
     (if \<not> truthy entity \<or> typeof entity \<noteq> ''object'' then Some False
      else
        do { start \<leftarrow> getProp entity ''start'';
             end \<leftarrow> getProp entity ''end'';
             case (start, end) of
               (JNum (Fin s), JNum (Fin e)) \<Rightarrow>
                 if s \<ge> e then Some False
                 else
                   do { candidate \<leftarrow> sliceOf sourceText s e;
                        let normalizedCandidate = normalizeListTerm H candidate;
                        Some (if length normalizedCandidate = 0 then False
                              else if normalizedCandidate \<in> set denylistSet then True
                              else if normalizedCandidate \<in> set allowlistSet then False
                              else True) }
             | _ \<Rightarrow> Some False })"

section \<open>The denylist scanner (routes/anonymize.js)\<close>

text \<open>
  \<^verbatim>\<open>s.indexOf(t, position)\<close>: the least index at or after the position (clamped to
  the string) where \<open>t\<close> occurs in \<open>s\<close>; \<open>None\<close> is \<open>-1\<close>.
\<close>

definition indexOf :: "string \<Rightarrow> string \<Rightarrow> nat \<Rightarrow> nat option" where
  "indexOf s t position =
     List.find (\<lambda>k. take (length t) (drop k s) = t)
       [min position (length s) ..< Suc (length s) - length t]"

definition denylistEntity :: "string \<Rightarrow> nat \<Rightarrow> nat \<Rightarrow> jsval" where
  "denylistEntity sourceText start end =
     JObj [(''entity_type'', JStr ''DENYLIST_TERM''),
           (''start'', JNum (Fin (of_nat start))),
           (''end'', JNum (Fin (of_nat end))),
           (''score'', JNum (Fin 1)),
           (''recognizer_result'', JStr ''denylist''),
           (''text'', JStr (slice sourceText (of_nat start) (of_nat end)))]"

text \<open>
  The body of the loop over the terms: an empty term is skipped (\<^verbatim>\<open>if (!term) continue\<close>),
  and the \<^verbatim>\<open>while\<close> loop runs from the search index. The entities it pushes are returned
  in the order of the pushes.
\<close>

function scanTerm :: "string \<Rightarrow> string \<Rightarrow> string \<Rightarrow> nat \<Rightarrow> jsval list" where
  "scanTerm sourceText lowerSource term searchIndex =
     (if term = [] then []
      else if searchIndex \<le> length lowerSource then
        (case indexOf lowerSource term searchIndex of
           None \<Rightarrow> []
         | Some matchIndex \<Rightarrow>
             denylistEntity sourceText matchIndex (matchIndex + length term)
               # scanTerm sourceText lowerSource term (matchIndex + length term))
      else [])"
  by pat_completeness auto
termination
proof (relation "measure (\<lambda>(sourceText, lowerSource, term, searchIndex).
    Suc (length lowerSource) - searchIndex)")
  show "wf (measure (\<lambda>(sourceText, lowerSource, term, searchIndex).
    Suc (length lowerSource) - searchIndex))"
    by simp
next
  fix sourceText lowerSource needle :: string and searchIndex matchIndex :: nat
  assume nonempty: "needle \<noteq> []"
    and inside: "searchIndex \<le> length lowerSource"
    and found: "indexOf lowerSource needle searchIndex = Some matchIndex"
  from found have "matchIndex \<in> set [min searchIndex (length lowerSource)
      ..< Suc (length lowerSource) - length needle]"
    unfolding indexOf_def by (auto simp: find_Some_iff)
  with inside have "searchIndex \<le> matchIndex" by simp
  with nonempty inside
  show "((sourceText, lowerSource, needle, matchIndex + length needle),
         (sourceText, lowerSource, needle, searchIndex))
        \<in> measure (\<lambda>(sourceText, lowerSource, term, searchIndex).
            Suc (length lowerSource) - searchIndex)"
    by (cases needle) auto
qed

declare scanTerm.simps [simp del]

definition findDenylistEntities :: "host \<Rightarrow> jsval \<Rightarrow> string list \<Rightarrow> jsval list" where
  "findDenylistEntities H sourceText denylistSet =
     (case sourceText of
        JStr s \<Rightarrow>
          if length denylistSet = 0 then []
          else concat (map (\<lambda>term. scanTerm s (toLowerCase H s) term 0) denylistSet)
      | _ \<Rightarrow> [])"

section \<open>The entity merger (routes/anonymize.js)\<close>

text \<open>
  The string a template literal makes of a value. An object parsed from JSON prints as
  \<^verbatim>\<open>[object Object]\<close>, unless it has a key \<^verbatim>\<open>toString\<close> of its own: that
  property is no function, the conversion finds no primitive and throws a TypeError
  (\<open>None\<close>). An array joins its elements with commas, \<^verbatim>\<open>null\<close> and
  \<^verbatim>\<open>undefined\<close> elements as empty strings.
\<close>

fun jsToString :: "host \<Rightarrow> jsval \<Rightarrow> string option"
  and joinValues :: "host \<Rightarrow> jsval list \<Rightarrow> string option" where
  "jsToString H JUndefined = Some ''undefined''"
| "jsToString H JNull = Some ''null''"
| "jsToString H (JBool b) = Some (if b then ''true'' else ''false'')"
| "jsToString H (JNum n) = Some (numberToString H n)"
| "jsToString H (JStr s) = Some s"
| "jsToString H (JArr xs) = joinValues H xs"
| "jsToString H (JObj kvs) =
     (if ''toString'' \<in> set (map fst kvs) then None else Some ''[object Object]'')"
| "joinValues H [] = Some []"
| "joinValues H (x # xs) =
     do { s \<leftarrow> (if x = JUndefined \<or> x = JNull then Some [] else jsToString H x);
          rest \<leftarrow> joinValues H xs;
          Some (if xs = [] then s else s @ '','' @ rest) }"

text \<open>The key \<^verbatim>\<open>`${start}-${end}-${type}`\<close>, with \<^verbatim>\<open>type = entity.entity_type ?? ""\<close>.\<close>

definition entityKey :: "host \<Rightarrow> rat \<Rightarrow> rat \<Rightarrow> jsval \<Rightarrow> string option" where
  "entityKey H start end entityType =
     do { type \<leftarrow> jsToString H
            (if entityType = JUndefined \<or> entityType = JNull then JStr [] else entityType);
          Some (numberToString H (Fin start) @ ''-'' @ numberToString H (Fin end) @ ''-'' @ type) }"

text \<open>
  \<^verbatim>\<open>pushIfUnique\<close> on the state of the merge: the set \<^verbatim>\<open>seen\<close> and the array
  \<^verbatim>\<open>output\<close>.
\<close>

definition pushIfUnique ::
  "host \<Rightarrow> string set \<times> jsval list \<Rightarrow> jsval \<Rightarrow> (string set \<times> jsval list) option" where
  "pushIfUnique H state entity =
     (if \<not> truthy entity \<or> typeof entity \<noteq> ''object'' then Some state
      else
        do { start \<leftarrow> getProp entity ''start'';
             end \<leftarrow> getProp entity ''end'';
             type \<leftarrow> getProp entity ''entity_type'';
             case (start, end) of
               (JNum (Fin s), JNum (Fin e)) \<Rightarrow>
                 if s \<ge> e then Some state
                 else
                   do { key \<leftarrow> entityKey H s e type;
                        if key \<in> fst state then Some state
                        else Some (insert key (fst state), snd state @ [entity]) }
             | _ \<Rightarrow> Some state })"

fun pushAll ::
  "host \<Rightarrow> string set \<times> jsval list \<Rightarrow> jsval list \<Rightarrow> (string set \<times> jsval list) option" where
  "pushAll H state [] = Some state"
| "pushAll H state (entity # entities) =
     do { state' \<leftarrow> pushIfUnique H state entity;
          pushAll H state' entities }"

definition mergeEntities :: "host \<Rightarrow> jsval list \<Rightarrow> jsval list \<Rightarrow> jsval list option" where
  "mergeEntities H baseEntities supplementalEntities =
     do { state \<leftarrow> pushAll H ({}, []) baseEntities;
          state' \<leftarrow> pushAll H state supplementalEntities;
          Some (snd state') }"

section \<open>The pipeline of the route (routes/anonymize.js)\<close>

text \<open>
  The handler of \<^verbatim>\<open>POST /anonymize\<close> between the request body and the entity list
  it sends on: the settings read from the body, the check of the text, and the stages on
  the analyzer's parsed response. The two remote calls are outside; the analyzer's
  response is an argument. A throw inside the \<^verbatim>\<open>try\<close> block is caught there and
  answered with status 500.
\<close>

datatype response =
    BadRequest string
  | ServerError string
  | Entities "jsval list"

definition filterStages ::
  "host \<Rightarrow> string list option \<Rightarrow> rat \<Rightarrow> string list \<Rightarrow> string list \<Rightarrow> jsval \<Rightarrow> jsval
     \<Rightarrow> jsval list option" where
  "filterStages H entityTypeFilterSet threshold allowlistSet denylistSet text
       analyzerResults =
     do { entityTypeFiltered \<leftarrow>
            (case analyzerResults of
               JArr results \<Rightarrow> filterM (entityTypeKeep H entityTypeFilterSet) results
             | _ \<Rightarrow> Some []);
          thresholdFiltered \<leftarrow>
            filterM (thresholdKeep H threshold) entityTypeFiltered;
          allowDenyFiltered \<leftarrow>
            filterM (\<lambda>entity. shouldIncludeEntity H entity text allowlistSet denylistSet)
              thresholdFiltered;
          mergeEntities H allowDenyFiltered (findDenylistEntities H text denylistSet) }"

definition anonymizeEntities :: "host \<Rightarrow> jsval \<Rightarrow> jsval \<Rightarrow> response" where
  "anonymizeEntities H body analyzerResults =
     (let text = optProp body ''text'';
          requestedEntityTypes = parseRequestedEntityTypes H (optProp body ''entityTypes'');
          entityTypeFilterSet =
            (if length requestedEntityTypes > 0 then Some (newSet requestedEntityTypes)
             else None);
          threshold = acceptanceThreshold H (optProp body ''threshold'');
          allowlistSet = buildTermSet H (optProp body ''allowlist'');
          denylistSet = buildTermSet H (optProp body ''denylist'')
      in case text of
           JStr t \<Rightarrow>
             if length (trim t) = 0
             then BadRequest ''Request body must include non-empty text.''
             else (case filterStages H entityTypeFilterSet threshold allowlistSet denylistSet
                          text analyzerResults of
                     None \<Rightarrow> ServerError ''Unexpected error while contacting Presidio services.''
                   | Some filteredAnalyzerResults \<Rightarrow> Entities filteredAnalyzerResults)
         | _ \<Rightarrow> BadRequest ''Request body must include non-empty text.'')"

section \<open>Conversions the annotator relies on\<close>

text \<open>
  \<^verbatim>\<open>a < b\<close> on numbers: false as soon as one of them is \<^verbatim>\<open>NaN\<close>.
\<close>

fun numLess :: "jsnum \<Rightarrow> jsnum \<Rightarrow> bool" where
  "numLess (Fin a) (Fin b) = (a < b)"
| "numLess NegInf (Fin b) = True"
| "numLess NegInf PosInf = True"
| "numLess (Fin a) PosInf = True"
| "numLess a b = False"

text \<open>
  The number a value converts to in a comparison or a subtraction. An object or an array
  converts through its string, and throws where that conversion throws.
\<close>

definition toNumber :: "host \<Rightarrow> jsval \<Rightarrow> jsnum option" where
  "toNumber H v =
     (case v of
        JUndefined \<Rightarrow> Some NaN
      | JNull \<Rightarrow> Some (Fin 0)
      | JBool b \<Rightarrow> Some (Fin (if b then 1 else 0))
      | JNum n \<Rightarrow> Some n
      | JStr s \<Rightarrow> Some (stringToNumber H s)
      | _ \<Rightarrow> map_option (stringToNumber H) (jsToString H v))"

text \<open>
  \<^verbatim>\<open>s.slice(start, end)\<close> for arbitrary numbers: \<^verbatim>\<open>NaN\<close> counts as \<open>0\<close>, and the
  infinities are clamped like every other index.
\<close>

fun relativeIndexOf :: "nat \<Rightarrow> jsnum \<Rightarrow> nat" where
  "relativeIndexOf len (Fin q) = relativeIndex len (truncate q)"
| "relativeIndexOf len NaN = 0"
| "relativeIndexOf len PosInf = len"
| "relativeIndexOf len NegInf = 0"

definition sliceNumbers :: "string \<Rightarrow> jsnum \<Rightarrow> jsnum \<Rightarrow> string" where
  "sliceNumbers s start end =
     (let from = relativeIndexOf (length s) start;
          to = relativeIndexOf (length s) end
      in take (to - from) (drop from s))"

text \<open>The assignment \<^verbatim>\<open>object.k = v\<close> on the properties of an object.\<close>

definition assign :: "string \<Rightarrow> jsval \<Rightarrow> (string \<times> jsval) list \<Rightarrow> (string \<times> jsval) list" where
  "assign k v kvs =
     (if k \<in> set (map fst kvs) then map (\<lambda>(k', v'). if k' = k then (k', v) else (k', v')) kvs
      else kvs @ [(k, v)])"

section \<open>Global replacement of a literal (String.prototype.replace with a /g pattern)\<close>

text \<open>
  The annotator escapes the found text and builds a global pattern from it. The escaped
  pattern matches its literal: every pattern character, escaped or not, matches itself.
\<close>

definition regexSpecials :: string where
  "regexSpecials = ''-/^$*+?.()|[]{}'' @ [CHR 0x5C]"

definition escapeRegExp :: "string \<Rightarrow> string" where
  "escapeRegExp s = concat (map (\<lambda>c. if c \<in> set regexSpecials then [CHR 0x5C, c] else [c]) s)"

fun patternLiteral :: "string \<Rightarrow> string" where
  "patternLiteral [] = []"
| "patternLiteral [c] = [c]"
| "patternLiteral (c # d # cs) =
     (if c = CHR 0x5C then d # patternLiteral cs else c # patternLiteral (d # cs))"

text \<open>
  The replacement text of one match: in the replacement string \<^verbatim>\<open>$$\<close> is a dollar sign,
  \<^verbatim>\<open>$&\<close> the match, \<^verbatim>\<open>$`\<close> the subject before the match and \<^verbatim>\<open>$'\<close> the subject after
  it; the pattern has no groups, so every other character stands for itself.
\<close>

fun substitution :: "string \<Rightarrow> string \<Rightarrow> string \<Rightarrow> string \<Rightarrow> string" where
  "substitution [] matched preceding following = []"
| "substitution [c] matched preceding following = [c]"
| "substitution (c # d # cs) matched preceding following =
     (if c = CHR ''$'' \<and> d = CHR ''$'' then CHR ''$'' # substitution cs matched preceding following
      else if c = CHR ''$'' \<and> d = CHR ''&'' then matched @ substitution cs matched preceding following
      else if c = CHR ''$'' \<and> d = CHR 0x60 then preceding @ substitution cs matched preceding following
      else if c = CHR ''$'' \<and> d = CHR 0x27 then following @ substitution cs matched preceding following
      else c # substitution (d # cs) matched preceding following)"

text \<open>
  The subject from a position on, with every match of the (non-empty) literal replaced:
  the matches are found from left to right, each search starting at the end of the match
  before.
\<close>

function replaceFrom :: "string \<Rightarrow> string \<Rightarrow> string \<Rightarrow> nat \<Rightarrow> string" where
  "replaceFrom subject literal replacement position =
     (if literal = [] then drop position subject
      else case indexOf subject literal position of
        None \<Rightarrow> drop position subject
      | Some matchIndex \<Rightarrow>
          take (matchIndex - position) (drop position subject)
            @ substitution replacement literal (take matchIndex subject)
                (drop (matchIndex + length literal) subject)
            @ replaceFrom subject literal replacement (matchIndex + length literal))"
  by pat_completeness auto
termination
proof (relation "measure (\<lambda>(subject, literal, replacement, position).
    Suc (length subject) - position)")
  show "wf (measure (\<lambda>(subject, literal, replacement, position).
    Suc (length subject) - position))"
    by simp
next
  fix subject literal replacement :: string and position matchIndex :: nat
  assume nonempty: "literal \<noteq> []"
    and found: "indexOf subject literal position = Some matchIndex"
  from found have "matchIndex \<in> set [min position (length subject)
      ..< Suc (length subject) - length literal]"
    unfolding indexOf_def by (auto simp: find_Some_iff)
  with nonempty have "position \<le> matchIndex \<and> matchIndex + length literal \<le> length subject"
    by (cases literal) (auto simp: min_def split: if_splits)
  with nonempty
  show "((subject, literal, replacement, matchIndex + length literal),
         (subject, literal, replacement, position))
        \<in> measure (\<lambda>(subject, literal, replacement, position).
            Suc (length subject) - position)"
    by (cases literal) auto
qed

declare replaceFrom.simps [simp del]

definition replaceAllMatches :: "string \<Rightarrow> string \<Rightarrow> string \<Rightarrow> string" where
  "replaceAllMatches subject pattern replacement =
     replaceFrom subject (patternLiteral pattern) replacement 0"

section \<open>The markup annotator (utils/anonymizerUtils.js and its second copy)\<close>

text \<open>
  The display map is a \<^verbatim>\<open>Map\<close> from entity types to display values, or absent. (A plain
  object is read the same way for its own keys.)
\<close>

datatype displayMap = NoDisplayMap | DisplayMap "(string \<times> jsval) list"

definition resolveDisplayEntityType :: "jsval \<Rightarrow> displayMap \<Rightarrow> jsval" where
  "resolveDisplayEntityType entityType displayMap =
     (case entityType of
        JStr s \<Rightarrow>
          if length s = 0 then entityType
          else (case displayMap of
                  NoDisplayMap \<Rightarrow> entityType
                | DisplayMap entries \<Rightarrow>
                    (case map_of entries s of
                       None \<Rightarrow> entityType
                     | Some v \<Rightarrow> if v = JUndefined \<or> v = JNull then entityType else v))
      | _ \<Rightarrow> entityType)"

text \<open>
  The first loop: \<^verbatim>\<open>entity.foundText = plainText.slice(entity.start, entity.end)\<close> for
  an entity whose \<^verbatim>\<open>start\<close> and \<^verbatim>\<open>end\<close> are numbers with \<open>end > start\<close>. Only an
  object has such properties.
\<close>

definition attachFoundText :: "string \<Rightarrow> jsval \<Rightarrow> jsval" where
  "attachFoundText plainText entity =
     (case entity of
        JObj kvs \<Rightarrow>
          (case (lookup kvs ''start'', lookup kvs ''end'') of
             (JNum start, JNum end) \<Rightarrow>
               if numLess start end
               then JObj (assign ''foundText'' (JStr (sliceNumbers plainText start end)) kvs)
               else entity
           | _ \<Rightarrow> entity)
      | _ \<Rightarrow> entity)"

text \<open>\<^verbatim>\<open>entity.foundText\<close> when it is a string, and the length the comparator sorts by.\<close>

definition foundTextOf :: "jsval \<Rightarrow> string option" where
  "foundTextOf entity =
     (case entity of
        JObj kvs \<Rightarrow> (case lookup kvs ''foundText'' of JStr s \<Rightarrow> Some s | _ \<Rightarrow> None)
      | _ \<Rightarrow> None)"

definition foundTextLength :: "jsval \<Rightarrow> nat" where
  "foundTextLength entity = (case foundTextOf entity of Some s \<Rightarrow> length s | None \<Rightarrow> 0)"

text \<open>
  The placeholder: \<^verbatim>\<open>&lt;TYPE&gt;\<close> when the display type is truthy and has a positive
  \<^verbatim>\<open>length\<close>, \<^verbatim>\<open>&lt;REDACTED&gt;\<close> otherwise. \<open>None\<close> when a conversion throws.
\<close>

definition lengthProperty :: "host \<Rightarrow> jsval \<Rightarrow> jsnum option" where
  "lengthProperty H v =
     (case v of
        JStr s \<Rightarrow> Some (Fin (of_nat (length s)))
      | JArr xs \<Rightarrow> Some (Fin (of_nat (length xs)))
      | JObj kvs \<Rightarrow> toNumber H (lookup kvs ''length'')
      | _ \<Rightarrow> Some NaN)"

definition placeholder :: "host \<Rightarrow> jsval \<Rightarrow> string option" where
  "placeholder H displayEntityType =
     (if truthy displayEntityType then
        do { n \<leftarrow> lengthProperty H displayEntityType;
             if numLess (Fin 0) n
             then do { s \<leftarrow> jsToString H displayEntityType;
                       Some (''&lt;'' @ s @ ''&gt;'') }
             else Some ''&lt;REDACTED&gt;'' }
      else Some ''&lt;REDACTED&gt;'')"

text \<open>
  The body of the second loop on the markup so far. In the second copy the markup is the
  argument itself until the first replacement, and \<^verbatim>\<open>html.replace\<close> throws when it is
  no string.
\<close>

definition redact :: "host \<Rightarrow> displayMap \<Rightarrow> jsval \<Rightarrow> jsval \<Rightarrow> jsval option" where
  "redact H displayMap entity html =
     (case foundTextOf entity of
        None \<Rightarrow> Some html
      | Some foundText \<Rightarrow>
          if length foundText > 0 then
            do { replacement \<leftarrow>
                   placeholder H
                     (resolveDisplayEntityType (optProp entity ''entity_type'') displayMap);
                 case html of
                   JStr markup \<Rightarrow>
                     Some (JStr (replaceAllMatches markup (escapeRegExp foundText) replacement))
                 | _ \<Rightarrow> None }
          else Some html)"

fun redactAll :: "host \<Rightarrow> displayMap \<Rightarrow> jsval list \<Rightarrow> jsval \<Rightarrow> jsval option" where
  "redactAll H displayMap [] html = Some html"
| "redactAll H displayMap (entity # entities) html =
     do { html' \<leftarrow> redact H displayMap entity html;
          redactAll H displayMap entities html' }"

text \<open>
  \<^verbatim>\<open>applyAnonymizationToHtml\<close> of \<^verbatim>\<open>utils/anonymizerUtils.js\<close>. The sort is stable and the
  comparator is \<^verbatim>\<open>bLength - aLength\<close>: the entities in descending order of the length of
  their found text.
\<close>

definition applyAnonymizationToHtml ::
  "host \<Rightarrow> jsval \<Rightarrow> jsval \<Rightarrow> jsval \<Rightarrow> jsval \<Rightarrow> displayMap \<Rightarrow> string option" where
  "applyAnonymizationToHtml H html plainText items entities entityTypeDisplayMap =
     (let sanitizedHtml = (case html of JStr s \<Rightarrow> s | _ \<Rightarrow> [])
      in case entities of
           JArr es \<Rightarrow>
             if length es = 0 then Some sanitizedHtml
             else
               (let attached = (case plainText of
                                  JStr p \<Rightarrow> map (attachFoundText p) es
                                | _ \<Rightarrow> es);
                    sortedEntities = sort_key (\<lambda>e. - int (foundTextLength e)) attached
                in map_option (\<lambda>result. case result of JStr s \<Rightarrow> s | _ \<Rightarrow> [])
                     (redactAll H entityTypeDisplayMap sortedEntities (JStr sanitizedHtml)))
         | _ \<Rightarrow> Some sanitizedHtml)"

text \<open>
  The values \<^verbatim>\<open>entities[i]\<close> that the loop
  \<^verbatim>\<open>for (let i = entities.length - 1; i >= 0; i--)\<close> of the second copy visits, in its
  order. \<open>None\<close>: reading \<^verbatim>\<open>length\<close> of \<^verbatim>\<open>null\<close> or \<^verbatim>\<open>undefined\<close> throws; an object
  with a \<^verbatim>\<open>length\<close> is read like an array, and with an infinite length (or one of
  \<open>2\<^sup>5\<^sup>3\<close> or more) the loop does not end.
\<close>

definition visitedBackwards :: "host \<Rightarrow> jsval \<Rightarrow> jsval list option" where
  "visitedBackwards H entities =
     (case entities of
        JArr es \<Rightarrow> Some (rev es)
      | JUndefined \<Rightarrow> None
      | JNull \<Rightarrow> None
      | JStr s \<Rightarrow> Some (map (\<lambda>c. JStr [c]) (rev s))
      | JObj kvs \<Rightarrow>
          do { n \<leftarrow> toNumber H (lookup kvs ''length'');
               case n of
                 Fin q \<Rightarrow>
                   if q \<ge> 2 ^ 53 then None
                   else Some (map (\<lambda>k. lookup kvs (numberToString H (Fin (q - 1 - of_nat k))))
                               [0 ..< nat (\<lfloor>q - 1\<rfloor> + 1)])
               | PosInf \<Rightarrow> None
               | _ \<Rightarrow> Some [] }
      | _ \<Rightarrow> Some [])"

text \<open>
  \<^verbatim>\<open>applyAnonymizationToHtml\<close> of the second copy (\<^verbatim>\<open>src/unnamed/part_000\<close>): no sort,
  the entities are visited from the last to the first.
\<close>

definition applyAnonymizationToHtml_part_000 ::
  "host \<Rightarrow> jsval \<Rightarrow> jsval \<Rightarrow> jsval \<Rightarrow> jsval \<Rightarrow> displayMap \<Rightarrow> string option" where
  "applyAnonymizationToHtml_part_000 H html plainText items entities entityTypeDisplayMap =
     (let attached = (case (plainText, entities) of
                        (JStr p, JArr es) \<Rightarrow> JArr (map (attachFoundText p) es)
                      | _ \<Rightarrow> entities)
      in do { visited \<leftarrow> visitedBackwards H attached;
              result \<leftarrow> redactAll H entityTypeDisplayMap visited html;
              Some (case result of JStr s \<Rightarrow> s | _ \<Rightarrow> []) })"

section \<open>The result signature (components/Anonymizer/index.js)\<close>

text \<open>
  \<^verbatim>\<open>JSON.stringify\<close> of a string: quotes around it, with the quote, the backslash and the
  control characters escaped.
\<close>

definition jsonEscape :: "char \<Rightarrow> string" where
  "jsonEscape c =
     (if c = CHR 0x22 then [CHR 0x5C, CHR 0x22]
      else if c = CHR 0x5C then [CHR 0x5C, CHR 0x5C]
      else if c = CHR 0x08 then [CHR 0x5C, CHR ''b'']
      else if c = CHR 0x09 then [CHR 0x5C, CHR ''t'']
      else if c = CHR 0x0A then [CHR 0x5C, CHR ''n'']
      else if c = CHR 0x0C then [CHR 0x5C, CHR ''f'']
      else if c = CHR 0x0D then [CHR 0x5C, CHR ''r'']
      else if (of_char c :: nat) < 32
      then [CHR 0x5C, CHR ''u'', CHR ''0'', CHR ''0'',
            ''0123456789abcdef'' ! ((of_char c :: nat) div 16),
            ''0123456789abcdef'' ! ((of_char c :: nat) mod 16)]
      else [c])"

definition jsonQuote :: "string \<Rightarrow> string" where
  "jsonQuote s = [CHR 0x22] @ concat (map jsonEscape s) @ [CHR 0x22]"

text \<open>\<^verbatim>\<open>parts.join(",")\<close>.\<close>

fun joinWith :: "string \<Rightarrow> string list \<Rightarrow> string" where
  "joinWith sep [] = []"
| "joinWith sep [x] = x"
| "joinWith sep (x # y # ys) = x @ sep @ joinWith sep (y # ys)"

text \<open>
  \<^verbatim>\<open>Number(value.toFixed(6))\<close>: the number rounded to six decimals, a tie away from zero;
  from \<open>10\<^sup>2\<^sup>1\<close> on \<^verbatim>\<open>toFixed\<close> prints the number itself.
\<close>

definition toFixed6 :: "rat \<Rightarrow> rat" where
  "toFixed6 q =
     (if \<bar>q\<bar> \<ge> 10 ^ 21 then q
      else sgn q * of_int \<lfloor>\<bar>q\<bar> * 10 ^ 6 + 1 / 2\<rfloor> / 10 ^ 6)"

text \<open>
  \<^verbatim>\<open>stableStringify\<close>. The keys of an object are \<^verbatim>\<open>Object.keys(value).sort()\<close>, sorted by
  code units, and each value is read back as \<^verbatim>\<open>value[key]\<close>.
\<close>

function stableStringify :: "host \<Rightarrow> jsval \<Rightarrow> string" where
  "stableStringify H JNull = ''null''"
| "stableStringify H (JNum n) =
     (case n of
        Fin q \<Rightarrow> numberToString H (Fin (toFixed6 q))
      | _ \<Rightarrow> ''null'')"
| "stableStringify H (JBool b) = (if b then ''true'' else ''false'')"
| "stableStringify H (JStr s) = jsonQuote s"
| "stableStringify H JUndefined = ''null''"
| "stableStringify H (JArr xs) =
     ''['' @ joinWith '','' (map (\<lambda>entry. stableStringify H entry) xs) @ '']''"
| "stableStringify H (JObj kvs) =
     ''{'' @ joinWith '',''
              (map (\<lambda>key. jsonQuote key @ '':'' @ stableStringify H (lookup kvs key))
                 (sort (map fst kvs)))
       @ ''}''"
  by pat_completeness auto
termination
proof (relation "measure (\<lambda>(H, v). size v)")
  show "wf (measure (\<lambda>(H, v). size v))" by simp
next
  fix H :: host and xs :: "jsval list" and entry
  assume "entry \<in> set xs"
  then have "size entry < Suc (size_list size xs)"
    by (induction xs) auto
  then show "((H, entry), (H, JArr xs)) \<in> measure (\<lambda>(H, v). size v)" by simp
next
  fix H :: host and kvs :: "(string \<times> jsval) list" and key
  assume "key \<in> set (sort (map fst kvs))"
  then have "key \<in> fst ` set kvs" by simp
  then have "map_of kvs key \<noteq> None" by (simp add: map_of_eq_None_iff)
  then obtain v where found: "map_of kvs key = Some v" by blast
  from map_of_SomeD [OF found] found have v: "(key, v) \<in> set kvs" "map_of kvs key = Some v"
    by simp_all
  from v(1) have "size v < Suc (size_list (size_prod (\<lambda>_. 0) size) kvs)"
    by (induction kvs) auto
  with v(2) show "((H, lookup kvs key), (H, JObj kvs)) \<in> measure (\<lambda>(H, v). size v)"
    by (simp add: lookup_def)
qed

text \<open>
  \<^verbatim>\<open>buildResultSignature\<close>: the fields read from the payload with their defaults, the
  object literal \<^verbatim>\<open>signaturePayload\<close>, and its stable string.
\<close>

definition field :: "jsval \<Rightarrow> string \<Rightarrow> jsval \<Rightarrow> jsval" where
  "field payload k fallback =
     (case optProp payload k of JUndefined \<Rightarrow> fallback | v \<Rightarrow> v)"

definition normalizedThreshold :: "host \<Rightarrow> jsval \<Rightarrow> jsnum" where
  "normalizedThreshold H threshold =
     (case threshold of
        JNum n \<Rightarrow> n
      | JStr s \<Rightarrow> parseFloat H s
      | _ \<Rightarrow> Fin DEFAULT_ACCEPTANCE_THRESHOLD)"

definition normalizedEntityTypes :: "host \<Rightarrow> jsval \<Rightarrow> string list" where
  "normalizedEntityTypes H entityTypes =
     (case entityTypes of
        JArr values \<Rightarrow>
          sort (newSet
            (filter (\<lambda>t. t \<noteq> [])
              (map (\<lambda>v. case v of JStr s \<Rightarrow> toUpperCase H (trim s) | _ \<Rightarrow> []) values)))
      | _ \<Rightarrow> [])"

definition arrayOrEmpty :: "jsval \<Rightarrow> jsval" where
  "arrayOrEmpty v = (case v of JArr xs \<Rightarrow> v | _ \<Rightarrow> JArr [])"

definition signaturePayload :: "host \<Rightarrow> jsval \<Rightarrow> jsval" where
  "signaturePayload H payload =
     JObj [(''sourceText'', field payload ''sourceText'' (JStr [])),
           (''sourceHtml'', field payload ''sourceHtml'' (JStr [])),
           (''resultText'', field payload ''resultText'' (JStr [])),
           (''resultHtml'', field payload ''resultHtml'' (JStr [])),
           (''nerModel'', field payload ''nerModel'' (JStr [])),
           (''language'', field payload ''language'' (JStr [])),
           (''threshold'',
              (case normalizedThreshold H
                      (field payload ''threshold'' (JNum (Fin DEFAULT_ACCEPTANCE_THRESHOLD))) of
                 Fin q \<Rightarrow> JNum (Fin (toFixed6 q))
               | _ \<Rightarrow> JNum (Fin DEFAULT_ACCEPTANCE_THRESHOLD))),
           (''allowlist'', field payload ''allowlist'' (JStr [])),
           (''denylist'', field payload ''denylist'' (JStr [])),
           (''entityTypes'',
              JArr (map JStr (normalizedEntityTypes H (field payload ''entityTypes'' (JArr []))))),
           (''entities'', arrayOrEmpty (field payload ''entities'' (JArr []))),
           (''items'', arrayOrEmpty (field payload ''items'' (JArr [])))]"

definition buildResultSignature :: "host \<Rightarrow> jsval \<Rightarrow> string" where
  "buildResultSignature H payload =
     (if \<not> truthy payload \<or> typeof payload \<noteq> ''object'' then []
      else stableStringify H (signaturePayload H payload))"

text \<open>
  A number rounded to six decimal places, the nearest multiple of \<open>10\<^sup>-\<^sup>6\<close> (of two, the
  one away from zero), as the specification words it.
\<close>

definition roundedToSixDecimals :: "rat \<Rightarrow> rat" where
  "roundedToSixDecimals q = sgn q * of_int (round (\<bar>q\<bar> * 1000000)) / 1000000"

text \<open>
  Two values that differ only in the order of the keys of their objects, at any depth,
  or in finite numbers that are equal after rounding to six decimal places. (An object
  parsed from JSON has no key twice. The numbers that differ are below \<open>10\<^sup>2\<^sup>1\<close> in
  magnitude: from \<open>2\<^sup>5\<^sup>3\<close> on every double is a whole number, its own rounding.)
\<close>

inductive sameUpToOrder :: "jsval \<Rightarrow> jsval \<Rightarrow> bool" where
  same: "sameUpToOrder v v"
| rounded:
    "\<bar>p\<bar> < 10 ^ 21 \<Longrightarrow> \<bar>q\<bar> < 10 ^ 21 \<Longrightarrow>
     roundedToSixDecimals p = roundedToSixDecimals q \<Longrightarrow>
     sameUpToOrder (JNum (Fin p)) (JNum (Fin q))"
| entries: "list_all2 sameUpToOrder xs ys \<Longrightarrow> sameUpToOrder (JArr xs) (JArr ys)"
| keys:
    "distinct (map fst kvs) \<Longrightarrow> distinct (map fst kvs') \<Longrightarrow>
     set (map fst kvs) = set (map fst kvs') \<Longrightarrow>
     (\<And>k. k \<in> set (map fst kvs) \<Longrightarrow> sameUpToOrder (lookup kvs k) (lookup kvs' k)) \<Longrightarrow>
     sameUpToOrder (JObj kvs) (JObj kvs')"

section \<open>What the merger reads of a record\<close>

text \<open>
  \<open>validOffsets\<close> is the test a candidate has to pass in \<^verbatim>\<open>pushIfUnique\<close> (and in
  \<^verbatim>\<open>shouldIncludeEntity\<close>): an object whose \<^verbatim>\<open>start\<close> and \<^verbatim>\<open>end\<close> are finite numbers
  with \<open>start < end\<close>. \<open>keyOf\<close> is the key \<^verbatim>\<open>pushIfUnique\<close> builds for such a record.
\<close>

definition validOffsets :: "jsval \<Rightarrow> bool" where
  "validOffsets entity \<longleftrightarrow>
     truthy entity \<and> typeof entity = ''object'' \<and>
     (case (optProp entity ''start'', optProp entity ''end'') of
        (JNum (Fin s), JNum (Fin e)) \<Rightarrow> s < e
      | _ \<Rightarrow> False)"

definition keyOf :: "host \<Rightarrow> jsval \<Rightarrow> string option" where
  "keyOf H entity =
     (case (optProp entity ''start'', optProp entity ''end'') of
        (JNum (Fin s), JNum (Fin e)) \<Rightarrow> entityKey H s e (optProp entity ''entity_type'')
      | _ \<Rightarrow> None)"

text \<open>
  The records a run of \<^verbatim>\<open>pushIfUnique\<close> over a list appends to the output, given the
  keys seen before: each record with valid offsets whose key is new, the key then
  counting as seen.
\<close>

fun survivors :: "host \<Rightarrow> string set \<Rightarrow> jsval list \<Rightarrow> jsval list" where
  "survivors H seen [] = []"
| "survivors H seen (entity # entities) =
     (if validOffsets entity then
        (case keyOf H entity of
           Some key \<Rightarrow>
             if key \<in> seen then survivors H seen entities
             else entity # survivors H (insert key seen) entities
         | None \<Rightarrow> survivors H seen entities)
      else survivors H seen entities)"

definition keysOf :: "host \<Rightarrow> jsval list \<Rightarrow> string set" where
  "keysOf H entities = {key. Some key \<in> set (map (keyOf H) entities)}"

section \<open>Leftmost non-overlapping matches\<close>

text \<open>
  The starts of the non-overlapping, left-to-right literal matches of a needle in a text
  from a cursor on: every start is a match at or after the cursor, a start lies at or
  after the end of the match before it, and every match of the needle at or after the
  cursor begins inside one of these matches, so that none of them could have begun
  earlier and none is missing.
\<close>

definition leftmostMatches :: "string \<Rightarrow> string \<Rightarrow> nat \<Rightarrow> nat list \<Rightarrow> bool" where
  "leftmostMatches text needle cursor starts \<longleftrightarrow>
     sorted_wrt (\<lambda>p q. p + length needle \<le> q) starts
     \<and> (\<forall>p\<in>set starts. cursor \<le> p \<and> take (length needle) (drop p text) = needle)
     \<and> (\<forall>q\<in>{cursor ..< length text}. take (length needle) (drop q text) = needle
           \<longrightarrow> (\<exists>p\<in>set starts. p \<le> q \<and> q < p + length needle))"


section \<open>The effective acceptance threshold\<close>

text \<open>
  C4, as stated: a numeric threshold outside \<open>[0, 1]\<close> is clamped, so that \<open>1.5\<close> gives \<open>1\<close>.
  The route does not clamp: \<open>1.5\<close> fails the range test and gives the default.
\<close>

theorem acceptanceThreshold_clamp_counterexample:
  "acceptanceThreshold refHost (JNum (Fin (3 / 2))) = 1 / 2
   \<and> acceptanceThreshold refHost (JNum (Fin (3 / 2))) \<noteq> 1"
  by (simp add: acceptanceThreshold_def parsedThreshold_def DEFAULT_ACCEPTANCE_THRESHOLD_def)

text \<open>
  C4, amended: for every raw threshold the effective acceptance threshold lies in
  \<open>[0, 1]\<close>; an input that is neither a number nor a string, or that does not parse to
  a finite number, gives the default \<open>0.5\<close>; a finite number inside \<open>[0, 1]\<close> is kept;
  a finite number outside \<open>[0, 1]\<close> gives the default \<open>0.5\<close> as well (it is not clamped).
  The same is said of a number and of a string read by \<^verbatim>\<open>parseFloat\<close> directly.
\<close>

theorem acceptanceThreshold_range_or_default:
  "(0 \<le> acceptanceThreshold H raw \<and> acceptanceThreshold H raw \<le> 1)
   \<and> (typeof raw \<noteq> ''number'' \<and> typeof raw \<noteq> ''string''
        \<longrightarrow> acceptanceThreshold H raw = 1 / 2)
   \<and> ((\<forall>p. parsedThreshold H raw \<noteq> Fin p) \<longrightarrow> acceptanceThreshold H raw = 1 / 2)
   \<and> (\<forall>p. parsedThreshold H raw = Fin p \<and> 0 \<le> p \<and> p \<le> 1
        \<longrightarrow> acceptanceThreshold H raw = p)
   \<and> (\<forall>p. parsedThreshold H raw = Fin p \<and> (p < 0 \<or> 1 < p)
        \<longrightarrow> acceptanceThreshold H raw = 1 / 2)
   \<and> (\<forall>p. 0 \<le> p \<and> p \<le> 1 \<longrightarrow> acceptanceThreshold H (JNum (Fin p)) = p)
   \<and> (\<forall>p. p < 0 \<or> 1 < p \<longrightarrow> acceptanceThreshold H (JNum (Fin p)) = 1 / 2)
   \<and> (\<forall>n. (\<forall>p. n \<noteq> Fin p) \<longrightarrow> acceptanceThreshold H (JNum n) = 1 / 2)
   \<and> (\<forall>s p. parseFloat H s = Fin p \<and> 0 \<le> p \<and> p \<le> 1
        \<longrightarrow> acceptanceThreshold H (JStr s) = p)
   \<and> (\<forall>s p. parseFloat H s = Fin p \<and> (p < 0 \<or> 1 < p)
        \<longrightarrow> acceptanceThreshold H (JStr s) = 1 / 2)
   \<and> (\<forall>s. (\<forall>p. parseFloat H s \<noteq> Fin p) \<longrightarrow> acceptanceThreshold H (JStr s) = 1 / 2)"
proof -
  have range: "0 \<le> acceptanceThreshold H raw \<and> acceptanceThreshold H raw \<le> 1"
    by (simp add: acceptanceThreshold_def DEFAULT_ACCEPTANCE_THRESHOLD_def split: jsnum.split)
  have other: "typeof raw \<noteq> ''number'' \<and> typeof raw \<noteq> ''string''
      \<longrightarrow> acceptanceThreshold H raw = 1 / 2"
    by (cases raw)
       (simp_all add: acceptanceThreshold_def parsedThreshold_def DEFAULT_ACCEPTANCE_THRESHOLD_def)
  have nonfinite: "(\<forall>p. parsedThreshold H raw \<noteq> Fin p) \<longrightarrow> acceptanceThreshold H raw = 1 / 2"
    by (simp add: acceptanceThreshold_def DEFAULT_ACCEPTANCE_THRESHOLD_def split: jsnum.split)
  have inside: "\<forall>p. parsedThreshold H raw = Fin p \<and> 0 \<le> p \<and> p \<le> 1
      \<longrightarrow> acceptanceThreshold H raw = p"
    by (simp add: acceptanceThreshold_def)
  have outside: "\<forall>p. parsedThreshold H raw = Fin p \<and> (p < 0 \<or> 1 < p)
      \<longrightarrow> acceptanceThreshold H raw = 1 / 2"
    by (auto simp: acceptanceThreshold_def DEFAULT_ACCEPTANCE_THRESHOLD_def)
  have number: "\<forall>p. 0 \<le> p \<and> p \<le> 1 \<longrightarrow> acceptanceThreshold H (JNum (Fin p)) = p"
    by (simp add: acceptanceThreshold_def parsedThreshold_def)
  have beyond: "\<forall>p. p < 0 \<or> 1 < p \<longrightarrow> acceptanceThreshold H (JNum (Fin p)) = 1 / 2"
    by (auto simp: acceptanceThreshold_def parsedThreshold_def DEFAULT_ACCEPTANCE_THRESHOLD_def)
  have infinite: "\<forall>n. (\<forall>p. n \<noteq> Fin p) \<longrightarrow> acceptanceThreshold H (JNum n) = 1 / 2"
    by (simp add: acceptanceThreshold_def parsedThreshold_def DEFAULT_ACCEPTANCE_THRESHOLD_def
        split: jsnum.split)
  have parsed: "\<forall>s p. parseFloat H s = Fin p \<and> 0 \<le> p \<and> p \<le> 1
      \<longrightarrow> acceptanceThreshold H (JStr s) = p"
    by (simp add: acceptanceThreshold_def parsedThreshold_def)
  have excess: "\<forall>s p. parseFloat H s = Fin p \<and> (p < 0 \<or> 1 < p)
      \<longrightarrow> acceptanceThreshold H (JStr s) = 1 / 2"
    by (auto simp: acceptanceThreshold_def parsedThreshold_def DEFAULT_ACCEPTANCE_THRESHOLD_def)
  have unread: "\<forall>s. (\<forall>p. parseFloat H s \<noteq> Fin p) \<longrightarrow> acceptanceThreshold H (JStr s) = 1 / 2"
    by (simp add: acceptanceThreshold_def parsedThreshold_def DEFAULT_ACCEPTANCE_THRESHOLD_def
        split: jsnum.split)
  show ?thesis
    by (intro conjI range [THEN conjunct1] range [THEN conjunct2] other nonfinite inside outside
        number beyond infinite parsed excess unread)
qed

theorem acceptanceThreshold_range_or_default_witness:
  "acceptanceThreshold refHost JNull = 1 / 2
   \<and> acceptanceThreshold refHost (JStr ''abc'') = 1 / 2
   \<and> acceptanceThreshold refHost (JStr ''0.25'') = 1 / 4
   \<and> acceptanceThreshold refHost (JNum (Fin (3 / 2))) = 1 / 2
   \<and> acceptanceThreshold refHost (JNum (Fin (- 1))) = 1 / 2
   \<and> acceptanceThreshold refHost (JNum (Fin (7 / 10))) = 7 / 10
   \<and> acceptanceThreshold refHost (JNum PosInf) = 1 / 2"
proof -
  have abc: "parsedThreshold refHost (JStr ''abc'') = NaN"
    by (simp add: parsedThreshold_def refHost_def refParseFloat_def skipSign_def isDigit_def
        isWhiteSpace_def)
  have quarter: "parsedThreshold refHost (JStr ''0.25'') = Fin (1 / 4)"
    by (simp add: parsedThreshold_def refHost_def refParseFloat_def skipSign_def isDigit_def
        isWhiteSpace_def isNegative_def exponentPart_def scale10_def digitsValue_def)
  have high: "parsedThreshold refHost (JNum (Fin (3 / 2))) = Fin (3 / 2)"
    by (simp add: parsedThreshold_def)
  have low: "parsedThreshold refHost (JNum (Fin (- 1))) = Fin (- 1)"
    by (simp add: parsedThreshold_def)
  have a: "acceptanceThreshold refHost JNull = 1 / 2"
    using acceptanceThreshold_range_or_default [of refHost JNull] by simp
  have b: "acceptanceThreshold refHost (JStr ''abc'') = 1 / 2"
    using acceptanceThreshold_range_or_default [of refHost "JStr ''abc''"] abc by simp
  have "parsedThreshold refHost (JStr ''0.25'') = Fin (1 / 4) \<and> 0 \<le> (1 / 4 :: rat)
      \<and> (1 / 4 :: rat) \<le> 1"
    using quarter by simp
  with acceptanceThreshold_range_or_default [of refHost "JStr ''0.25''"]
  have c: "acceptanceThreshold refHost (JStr ''0.25'') = 1 / 4" by blast
  have "parsedThreshold refHost (JNum (Fin (3 / 2))) = Fin (3 / 2)
      \<and> ((3 / 2 :: rat) < 0 \<or> 1 < (3 / 2 :: rat))"
    using high by simp
  with acceptanceThreshold_range_or_default [of refHost "JNum (Fin (3 / 2))"]
  have d: "acceptanceThreshold refHost (JNum (Fin (3 / 2))) = 1 / 2" by blast
  have "parsedThreshold refHost (JNum (Fin (- 1))) = Fin (- 1)
      \<and> ((- 1 :: rat) < 0 \<or> 1 < (- 1 :: rat))"
    using low by simp
  with acceptanceThreshold_range_or_default [of refHost "JNum (Fin (- 1))"]
  have e: "acceptanceThreshold refHost (JNum (Fin (- 1))) = 1 / 2" by blast
  have "0 \<le> (7 / 10 :: rat) \<and> (7 / 10 :: rat) \<le> 1" by simp
  from acceptanceThreshold_range_or_default [where H = refHost, THEN conjunct2, THEN conjunct2,
      THEN conjunct2, THEN conjunct2, THEN conjunct2, THEN conjunct1, rule_format, OF this]
  have f: "acceptanceThreshold refHost (JNum (Fin (7 / 10))) = 7 / 10" .
  note infinite = acceptanceThreshold_range_or_default [where H = refHost, THEN conjunct2,
      THEN conjunct2, THEN conjunct2, THEN conjunct2, THEN conjunct2, THEN conjunct2,
      THEN conjunct2, THEN conjunct1, rule_format]
  have g: "acceptanceThreshold refHost (JNum PosInf) = 1 / 2"
    by (rule infinite) simp
  from a b c d e f g show ?thesis by (intro conjI)
qed

section \<open>The threshold filter\<close>

text \<open>A fallible filter whose predicate never throws is the plain filter.\<close>

lemma filterM_total:
  "(\<And>x. x \<in> set xs \<Longrightarrow> p x = Some (q x)) \<Longrightarrow> filterM p xs = Some (filter q xs)"
  by (induction xs) simp_all

lemma filterM_subset:
  "filterM p xs = Some ys \<Longrightarrow> set ys \<subseteq> set xs"
  by (induction xs arbitrary: ys) (auto split: bind_splits if_splits)

lemma filterM_kept:
  "filterM p xs = Some ys \<Longrightarrow> y \<in> set ys \<Longrightarrow> p y = Some True"
  by (induction xs arbitrary: ys) (auto split: bind_splits if_splits)

text \<open>
  C3: for every entity record and every threshold \<open>t\<close>, the threshold filter keeps the
  record iff its score parses to a finite number \<open>s\<close> with \<open>s \<ge> t\<close>: a score that is a
  finite number is itself \<open>s\<close>, a score that is a string is parsed by \<^verbatim>\<open>parseFloat\<close>; a
  score equal to \<open>t\<close> is kept, a score strictly below \<open>t\<close> is not. A record whose score
  is absent, of another type, a number that is not finite or a string that does not parse
  to a finite number is kept for every \<open>t\<close>.
\<close>

theorem thresholdKeep_inclusive_bound:
  "(\<forall>s. lookup kvs ''score'' = JNum (Fin s)
        \<longrightarrow> thresholdKeep H t (JObj kvs) = Some (s \<ge> t))
   \<and> (\<forall>str s. lookup kvs ''score'' = JStr str \<and> parseFloat H str = Fin s
        \<longrightarrow> thresholdKeep H t (JObj kvs) = Some (s \<ge> t))
   \<and> (lookup kvs ''score'' = JNum (Fin t) \<longrightarrow> thresholdKeep H t (JObj kvs) = Some True)
   \<and> (\<forall>s. lookup kvs ''score'' = JNum (Fin s) \<and> s < t
        \<longrightarrow> thresholdKeep H t (JObj kvs) = Some False)
   \<and> (\<forall>n. lookup kvs ''score'' = JNum n \<and> (\<forall>s. n \<noteq> Fin s)
        \<longrightarrow> thresholdKeep H t (JObj kvs) = Some True)
   \<and> (\<forall>str. lookup kvs ''score'' = JStr str \<and> (\<forall>s. parseFloat H str \<noteq> Fin s)
        \<longrightarrow> thresholdKeep H t (JObj kvs) = Some True)
   \<and> (typeof (lookup kvs ''score'') \<noteq> ''number'' \<and> typeof (lookup kvs ''score'') \<noteq> ''string''
        \<longrightarrow> thresholdKeep H t (JObj kvs) = Some True)"
proof -
  have keep: "thresholdKeep H t (JObj kvs) =
      Some (case parsedScore H (lookup kvs ''score'') of Fin s \<Rightarrow> s \<ge> t | _ \<Rightarrow> True)"
    by (simp add: thresholdKeep_def)
  have number: "\<forall>s. lookup kvs ''score'' = JNum (Fin s)
      \<longrightarrow> thresholdKeep H t (JObj kvs) = Some (s \<ge> t)"
    by (simp add: keep parsedScore_def)
  have parsed: "\<forall>str s. lookup kvs ''score'' = JStr str \<and> parseFloat H str = Fin s
      \<longrightarrow> thresholdKeep H t (JObj kvs) = Some (s \<ge> t)"
    by (simp add: keep parsedScore_def)
  have equal: "lookup kvs ''score'' = JNum (Fin t) \<longrightarrow> thresholdKeep H t (JObj kvs) = Some True"
    by (simp add: keep parsedScore_def)
  have below: "\<forall>s. lookup kvs ''score'' = JNum (Fin s) \<and> s < t
      \<longrightarrow> thresholdKeep H t (JObj kvs) = Some False"
    by (simp add: keep parsedScore_def)
  have nonfinite: "\<forall>n. lookup kvs ''score'' = JNum n \<and> (\<forall>s. n \<noteq> Fin s)
      \<longrightarrow> thresholdKeep H t (JObj kvs) = Some True"
    by (auto simp: keep parsedScore_def split: jsnum.split)
  have unparsed: "\<forall>str. lookup kvs ''score'' = JStr str \<and> (\<forall>s. parseFloat H str \<noteq> Fin s)
      \<longrightarrow> thresholdKeep H t (JObj kvs) = Some True"
    by (auto simp: keep parsedScore_def split: jsnum.split)
  have other: "typeof (lookup kvs ''score'') \<noteq> ''number''
      \<and> typeof (lookup kvs ''score'') \<noteq> ''string''
      \<longrightarrow> thresholdKeep H t (JObj kvs) = Some True"
    by (cases "lookup kvs ''score''") (simp_all add: keep parsedScore_def)
  show ?thesis
    by (intro conjI number parsed equal below nonfinite unparsed other)
qed

theorem thresholdKeep_inclusive_bound_witness:
  "thresholdKeep refHost (1 / 2) (JObj [(''score'', JNum (Fin (1 / 2)))]) = Some True
   \<and> thresholdKeep refHost (1 / 2) (JObj [(''score'', JNum (Fin (49 / 100)))]) = Some False
   \<and> thresholdKeep refHost (1 / 2) (JObj [(''score'', JStr ''0.25'')]) = Some False
   \<and> thresholdKeep refHost (1 / 2) (JObj [(''score'', JStr ''0.75'')]) = Some True
   \<and> thresholdKeep refHost (1 / 2) (JObj [(''score'', JStr ''high'')]) = Some True
   \<and> thresholdKeep refHost (1 / 2) (JObj [(''score'', JNum NaN)]) = Some True
   \<and> thresholdKeep refHost 1 (JObj [(''start'', JNum (Fin 0))]) = Some True"
proof -
  note bound = thresholdKeep_inclusive_bound [where H = refHost]
  have a: "lookup [(''score'', JNum (Fin (1 / 2)))] ''score'' = JNum (Fin (1 / 2))"
    by (simp add: lookup_def)
  have b: "lookup [(''score'', JNum (Fin (49 / 100)))] ''score'' = JNum (Fin (49 / 100))
      \<and> (49 / 100 :: rat) < 1 / 2"
    by (simp add: lookup_def)
  have low: "parseFloat refHost ''0.25'' = Fin (1 / 4)"
    by code_simp
  have high: "parseFloat refHost ''0.75'' = Fin (3 / 4)"
    by code_simp
  have c: "lookup [(''score'', JStr ''0.25'')] ''score'' = JStr ''0.25''
      \<and> parseFloat refHost ''0.25'' = Fin (1 / 4)"
    by (simp add: lookup_def low)
  have d: "lookup [(''score'', JStr ''0.75'')] ''score'' = JStr ''0.75''
      \<and> parseFloat refHost ''0.75'' = Fin (3 / 4)"
    by (simp add: lookup_def high)
  have word: "parseFloat refHost ''high'' = NaN"
    by code_simp
  have e: "lookup [(''score'', JStr ''high'')] ''score'' = JStr ''high''
      \<and> (\<forall>s. parseFloat refHost ''high'' \<noteq> Fin s)"
    by (simp add: lookup_def word)
  have f: "lookup [(''score'', JNum NaN)] ''score'' = JNum NaN \<and> (\<forall>s. NaN \<noteq> Fin s)"
    by (simp add: lookup_def)
  have g: "typeof (lookup [(''start'', JNum (Fin 0))] ''score'') \<noteq> ''number''
      \<and> typeof (lookup [(''start'', JNum (Fin 0))] ''score'') \<noteq> ''string''"
    by (simp add: lookup_def)
  from a bound [of "[(''score'', JNum (Fin (1 / 2)))]" "1 / 2"]
  have 1: "thresholdKeep refHost (1 / 2) (JObj [(''score'', JNum (Fin (1 / 2)))]) = Some True"
    by blast
  from b bound [of "[(''score'', JNum (Fin (49 / 100)))]" "1 / 2"]
  have 2: "thresholdKeep refHost (1 / 2) (JObj [(''score'', JNum (Fin (49 / 100)))]) = Some False"
    by blast
  from c bound [of "[(''score'', JStr ''0.25'')]" "1 / 2"]
  have "thresholdKeep refHost (1 / 2) (JObj [(''score'', JStr ''0.25'')])
      = Some ((1 / 4 :: rat) \<ge> 1 / 2)"
    by blast
  then have 3: "thresholdKeep refHost (1 / 2) (JObj [(''score'', JStr ''0.25'')]) = Some False"
    by simp
  from d bound [of "[(''score'', JStr ''0.75'')]" "1 / 2"]
  have "thresholdKeep refHost (1 / 2) (JObj [(''score'', JStr ''0.75'')])
      = Some ((3 / 4 :: rat) \<ge> 1 / 2)"
    by blast
  then have 4: "thresholdKeep refHost (1 / 2) (JObj [(''score'', JStr ''0.75'')]) = Some True"
    by simp
  from e bound [of "[(''score'', JStr ''high'')]" "1 / 2"]
  have 5: "thresholdKeep refHost (1 / 2) (JObj [(''score'', JStr ''high'')]) = Some True"
    by blast
  from f bound [of "[(''score'', JNum NaN)]" "1 / 2"]
  have 6: "thresholdKeep refHost (1 / 2) (JObj [(''score'', JNum NaN)]) = Some True"
    by blast
  from g bound [of "[(''start'', JNum (Fin 0))]" 1]
  have 7: "thresholdKeep refHost 1 (JObj [(''start'', JNum (Fin 0))]) = Some True"
    by blast
  from 1 2 3 4 5 6 7 show ?thesis by (intro conjI)
qed

section \<open>The term policy filter\<close>

lemma set_dedupe: "set (dedupe seen xs) = set xs - set seen"
  by (induction seen xs rule: dedupe.induct) auto

lemma distinct_dedupe: "distinct (dedupe seen xs)"
  by (induction seen xs rule: dedupe.induct) (auto simp: set_dedupe)

lemma set_newSet: "set (newSet xs) = set xs"
  by (simp add: newSet_def set_dedupe)

lemma distinct_newSet: "distinct (newSet xs)"
  by (simp add: newSet_def distinct_dedupe)

text \<open>A term set holds no empty term, and no term twice.\<close>

lemma buildTermSet_no_empty_term: "[] \<notin> set (buildTermSet H input)"
  by (auto simp: buildTermSet_def set_newSet parseListInput_def split: jsval.splits)

lemma distinct_buildTermSet: "distinct (buildTermSet H input)"
  by (simp add: buildTermSet_def distinct_newSet)

text \<open>
  C1: for an entity record with finite offsets \<open>start < end\<close>, let the normalised found
  text be the NFC-normalised, trimmed, lower-cased \<^verbatim>\<open>sourceText.slice(start, end)\<close>.
  If it is a member of the deny set, the record is included, whether or not the term is
  in the allow set as well; if it is not in the deny set but in the allow set, the record
  is excluded; otherwise it is included; a record whose normalised found text is empty is
  dropped. (A deny set is a term set: it has no empty term.)
\<close>

theorem shouldIncludeEntity_deny_precedence:
  assumes "lookup kvs ''start'' = JNum (Fin s)"
    and "lookup kvs ''end'' = JNum (Fin e)"
    and "s < e"
    and "[] \<notin> set denylistSet"
  shows "let found = toLowerCase H (trim (normalizeNFC H (slice sourceText s e)));
             included = shouldIncludeEntity H (JObj kvs) (JStr sourceText) allowlistSet denylistSet
         in (found \<in> set denylistSet \<longrightarrow> included = Some True)
          \<and> (found \<notin> set denylistSet \<and> found \<in> set allowlistSet \<longrightarrow> included = Some False)
          \<and> (found \<notin> set denylistSet \<and> found \<notin> set allowlistSet \<and> found \<noteq> []
                \<longrightarrow> included = Some True)
          \<and> (found = [] \<longrightarrow> included = Some False)"
proof -
  have "shouldIncludeEntity H (JObj kvs) (JStr sourceText) allowlistSet denylistSet =
      Some (let found = toLowerCase H (trim (normalizeNFC H (slice sourceText s e)))
            in found \<noteq> [] \<and> (found \<in> set denylistSet \<or> found \<notin> set allowlistSet))"
    using assms(1-3) by (simp add: shouldIncludeEntity_def normalizeListTerm_def Let_def)
  with assms(4) show ?thesis
    by (auto simp: Let_def)
qed

theorem shouldIncludeEntity_deny_precedence_witness:
  "shouldIncludeEntity refHost
     (JObj [(''entity_type'', JStr ''PERSON''), (''start'', JNum (Fin 5)), (''end'', JNum (Fin 16))])
     (JStr ''Call Jan Jansen at jan@example.com'')
     (buildTermSet refHost (JStr ''Jan Jansen''))
     (buildTermSet refHost (JStr ''Jan Jansen'')) = Some True"
proof -
  let ?kvs = "[(''entity_type'', JStr ''PERSON''), (''start'', JNum (Fin 5)),
    (''end'', JNum (Fin 16))]"
  let ?text = "''Call Jan Jansen at jan@example.com''"
  let ?terms = "buildTermSet refHost (JStr ''Jan Jansen'')"
  have start: "lookup ?kvs ''start'' = JNum (Fin 5)" by (simp add: lookup_def)
  have stop: "lookup ?kvs ''end'' = JNum (Fin 16)" by (simp add: lookup_def)
  have order: "(5 :: rat) < 16" by simp
  have terms: "?terms = [''jan jansen'']"
    by code_simp
  have found: "toLowerCase refHost (trim (normalizeNFC refHost (slice ?text 5 16))) = ''jan jansen''"
    by code_simp
  from shouldIncludeEntity_deny_precedence [where H = refHost and sourceText = ?text
      and allowlistSet = ?terms and denylistSet = ?terms,
      OF start stop order buildTermSet_no_empty_term]
  show ?thesis
    unfolding Let_def found terms by simp
qed

section \<open>The entity merger: first seen wins\<close>

lemma pushIfUnique_eq:
  "pushIfUnique H state entity =
     (if \<not> validOffsets entity then Some state
      else case keyOf H entity of
             None \<Rightarrow> None
           | Some key \<Rightarrow>
               if key \<in> fst state then Some state
               else Some (insert key (fst state), snd state @ [entity]))"
proof (cases entity)
  case (JObj kvs)
  show ?thesis
    by (cases "lookup kvs ''start''"; cases "lookup kvs ''end''")
       (auto simp: JObj pushIfUnique_def validOffsets_def keyOf_def
          split: jsnum.splits bind_splits)
qed (simp_all add: pushIfUnique_def validOffsets_def)

lemma keysOf_Nil [simp]: "keysOf H [] = {}"
  by (simp add: keysOf_def)

lemma keysOf_Cons:
  "keysOf H (e # es) = (case keyOf H e of Some k \<Rightarrow> insert k (keysOf H es) | None \<Rightarrow> keysOf H es)"
  by (auto simp: keysOf_def split: option.splits)

lemma keysOf_append: "keysOf H (xs @ ys) = keysOf H xs \<union> keysOf H ys"
  by (auto simp: keysOf_def)

lemma pushAll_survivors:
  "pushAll H state es = Some state' \<Longrightarrow>
     state' = (fst state \<union> keysOf H (survivors H (fst state) es),
               snd state @ survivors H (fst state) es)"
proof (induction es arbitrary: state)
  case Nil
  then show ?case by simp
next
  case (Cons e es)
  from Cons.prems obtain mid where step: "pushIfUnique H state e = Some mid"
    and rest: "pushAll H mid es = Some state'"
    by (auto split: bind_splits)
  note IH = Cons.IH [OF rest]
  show ?case
  proof (cases "validOffsets e")
    case False
    with step have "mid = state" by (simp add: pushIfUnique_eq)
    with IH False show ?thesis by simp
  next
    case True
    with step obtain k where key: "keyOf H e = Some k"
      by (auto simp: pushIfUnique_eq split: option.splits)
    show ?thesis
    proof (cases "k \<in> fst state")
      case True
      with step key \<open>validOffsets e\<close> have "mid = state" by (simp add: pushIfUnique_eq)
      with IH True key \<open>validOffsets e\<close> show ?thesis by simp
    next
      case False
      with step key \<open>validOffsets e\<close>
      have "mid = (insert k (fst state), snd state @ [e])" by (simp add: pushIfUnique_eq)
      with IH False key \<open>validOffsets e\<close> show ?thesis
        by (simp add: keysOf_Cons)
    qed
  qed
qed

lemma pushAll_keys_defined:
  "pushAll H state es = Some state' \<Longrightarrow> e \<in> set es \<Longrightarrow> validOffsets e \<Longrightarrow> keyOf H e \<noteq> None"
  by (induction es arbitrary: state)
     (auto simp: pushIfUnique_eq split: bind_splits option.splits if_splits)

lemma pushAll_total:
  "(\<And>e. e \<in> set es \<Longrightarrow> validOffsets e \<Longrightarrow> keyOf H e \<noteq> None) \<Longrightarrow> pushAll H state es \<noteq> None"
proof (induction es arbitrary: state)
  case Nil
  then show ?case by simp
next
  case (Cons e es)
  have "pushIfUnique H state e \<noteq> None"
    using Cons.prems [of e] by (auto simp: pushIfUnique_eq split: option.splits)
  then obtain mid where mid: "pushIfUnique H state e = Some mid" by blast
  have "pushAll H mid es \<noteq> None"
    by (rule Cons.IH) (simp add: Cons.prems)
  with mid show ?case by simp
qed

lemma subseq_survivors: "subseq (survivors H seen es) es"
  by (induction es arbitrary: seen) (auto split: option.splits)

lemma survivors_valid:
  "e \<in> set (survivors H seen es) \<Longrightarrow> validOffsets e \<and> (\<exists>k. keyOf H e = Some k \<and> k \<notin> seen)"
  by (induction es arbitrary: seen) (auto split: option.splits if_splits)

lemma distinct_survivors: "distinct (map (keyOf H) (survivors H seen es))"
  by (induction es arbitrary: seen) (auto split: option.splits dest: survivors_valid)

lemma survivors_complete:
  "e \<in> set es \<Longrightarrow> validOffsets e \<Longrightarrow> keyOf H e = Some k \<Longrightarrow>
     k \<in> seen \<or> k \<in> keysOf H (survivors H seen es)"
  by (induction es arbitrary: seen) (auto simp: keysOf_Cons split: option.splits)

lemma survivors_first:
  "e \<in> set (survivors H seen es) \<Longrightarrow>
     List.find (\<lambda>x. validOffsets x \<and> keyOf H x = keyOf H e) es = Some e"
proof (induction es arbitrary: seen)
  case Nil
  then show ?case by simp
next
  case (Cons x xs)
  show ?case
  proof (cases "validOffsets x \<and> keyOf H x = keyOf H e")
    case True
    from Cons.prems obtain k where ke: "keyOf H e = Some k"
      using survivors_valid by blast
    with True have kx: "keyOf H x = Some k" by simp
    from True have vx: "validOffsets x" by simp
    have "e = x"
    proof (rule ccontr)
      assume differ: "e \<noteq> x"
      show False
      proof (cases "k \<in> seen")
        case True
        with Cons.prems vx kx have "e \<in> set (survivors H seen xs)" by simp
        from survivors_valid [OF this] ke True show False by auto
      next
        case False
        with Cons.prems vx kx differ have "e \<in> set (survivors H (insert k seen) xs)" by simp
        from survivors_valid [OF this] ke show False by auto
      qed
    qed
    with True show ?thesis by simp
  next
    case False
    with Cons.prems have "e \<in> set (survivors H seen xs) \<or>
        (\<exists>k. e \<in> set (survivors H (insert k seen) xs))"
      by (auto split: if_splits option.splits)
    with Cons.IH have "List.find (\<lambda>x. validOffsets x \<and> keyOf H x = keyOf H e) xs = Some e"
      by blast
    with False show ?thesis by auto
  qed
qed

lemma survivors_append:
  "survivors H seen (xs @ ys) =
     survivors H seen xs @ survivors H (seen \<union> keysOf H (survivors H seen xs)) ys"
  by (induction xs arbitrary: seen) (auto simp: keysOf_Cons split: option.splits)


lemma pushAll_seen:
  assumes "pushAll H state es = Some state'" "e \<in> set es" "validOffsets e"
  shows "\<exists>k. keyOf H e = Some k \<and> k \<in> fst state'"
proof -
  from pushAll_keys_defined [OF assms] obtain k where k: "keyOf H e = Some k" by blast
  from survivors_complete [OF assms(2,3) k, of "fst state"] pushAll_survivors [OF assms(1)]
  have "k \<in> fst state'" by auto
  with k show ?thesis by blast
qed

lemma pushAll_absorb:
  "(\<And>e. e \<in> set es \<Longrightarrow> validOffsets e \<Longrightarrow> \<exists>k. keyOf H e = Some k \<and> k \<in> fst state)
     \<Longrightarrow> pushAll H state es = Some state"
proof (induction es)
  case Nil
  then show ?case by simp
next
  case (Cons e es)
  have "pushIfUnique H state e = Some state"
    using Cons.prems [of e] by (auto simp: pushIfUnique_eq)
  moreover have "pushAll H state es = Some state"
    by (rule Cons.IH) (simp add: Cons.prems)
  ultimately show ?case by simp
qed

lemma mergeEntities_survivors:
  assumes "mergeEntities H primary supplemental = Some merged"
  shows "merged = survivors H {} (primary @ supplemental)"
    and "mergeEntities H primary [] = Some (survivors H {} primary)"
proof -
  from assms obtain mid last where mid: "pushAll H ({}, []) primary = Some mid"
    and last: "pushAll H mid supplemental = Some last" and merged: "merged = snd last"
    by (auto simp: mergeEntities_def split: bind_splits)
  from pushAll_survivors [OF mid]
  have mid_eq: "mid = (keysOf H (survivors H {} primary), survivors H {} primary)" by simp
  from pushAll_survivors [OF last] mid_eq merged
  show "merged = survivors H {} (primary @ supplemental)"
    by (simp add: survivors_append)
  from mid mid_eq show "mergeEntities H primary [] = Some (survivors H {} primary)"
    by (simp add: mergeEntities_def)
qed

text \<open>
  C9: for every entity list, merging the list with itself gives what merging it with the
  empty list gives: the list reduced to the first entity of each key.
\<close>

theorem mergeEntities_idempotent:
  "mergeEntities H entities entities = mergeEntities H entities []"
proof (cases "pushAll H ({}, []) entities")
  case None
  then show ?thesis by (simp add: mergeEntities_def)
next
  case (Some state)
  have "pushAll H state entities = Some state"
    by (rule pushAll_absorb) (rule pushAll_seen [OF Some])
  with Some show ?thesis by (simp add: mergeEntities_def)
qed

section \<open>The denylist scanner: leftmost matches\<close>

lemma indexOf_Some:
  assumes "indexOf s t i = Some m"
  shows "min i (length s) \<le> m" and "m + length t \<le> length s"
    and "take (length t) (drop m s) = t"
    and "\<And>k. min i (length s) \<le> k \<Longrightarrow> k < m \<Longrightarrow> take (length t) (drop k s) \<noteq> t"
proof -
  let ?lo = "min i (length s)" and ?hi = "Suc (length s) - length t"
  from assms obtain j where j: "j < length [?lo ..< ?hi]"
    and hit: "take (length t) (drop ([?lo ..< ?hi] ! j) s) = t"
    and m: "m = [?lo ..< ?hi] ! j"
    and least: "\<forall>j' < j. take (length t) (drop ([?lo ..< ?hi] ! j') s) \<noteq> t"
    unfolding indexOf_def find_Some_iff by blast
  from j have mj: "m = ?lo + j" and bound: "?lo + j < ?hi" using m by simp_all
  show "?lo \<le> m" using mj by simp
  show "m + length t \<le> length s" using mj bound by simp
  show "take (length t) (drop m s) = t" using hit m by simp
  fix k assume k: "?lo \<le> k" "k < m"
  then have "k - ?lo < j" using mj by simp
  with least have "take (length t) (drop ([?lo ..< ?hi] ! (k - ?lo)) s) \<noteq> t" by blast
  moreover have "[?lo ..< ?hi] ! (k - ?lo) = k" using k mj bound by simp
  ultimately show "take (length t) (drop k s) \<noteq> t" by simp
qed

lemma occurrence_inside:
  "take (length t) (drop k s) = t \<Longrightarrow> t \<noteq> [] \<Longrightarrow> k + length t \<le> length s"
proof -
  assume a: "take (length t) (drop k s) = t" and "t \<noteq> []"
  have "length (take (length t) (drop k s)) = min (length t) (length s - k)" by simp
  with a have "length t = min (length t) (length s - k)" by simp
  with \<open>t \<noteq> []\<close> show ?thesis by (cases t) auto
qed

lemma indexOf_None:
  assumes "indexOf s t i = None" "t \<noteq> []" "i \<le> k"
  shows "take (length t) (drop k s) \<noteq> t"
proof
  assume hit: "take (length t) (drop k s) = t"
  from occurrence_inside [OF hit assms(2)] have "k + length t \<le> length s" .
  with assms(2,3) have "k \<in> set [min i (length s) ..< Suc (length s) - length t]"
    by (cases t) auto
  with assms(1) hit show False
    unfolding indexOf_def find_None_iff by blast
qed

lemma scanTerm_leftmost:
  "t \<noteq> [] \<Longrightarrow>
     \<exists>starts. scanTerm s L t i = map (\<lambda>p. denylistEntity s p (p + length t)) starts
       \<and> leftmostMatches L t i starts"
proof (induction s L t i rule: scanTerm.induct)
  case (1 s L t i)
  show ?case
  proof (cases "i \<le> length L")
    case False
    with "1.prems" have "scanTerm s L t i = []" by (subst scanTerm.simps) simp
    moreover from False have "leftmostMatches L t i []"
      by (simp add: leftmostMatches_def)
    ultimately show ?thesis by (intro exI [of _ "[]"]) simp
  next
    case True
    show ?thesis
    proof (cases "indexOf L t i")
      case None
      with True "1.prems" have "scanTerm s L t i = []" by (subst scanTerm.simps) simp
      moreover have "leftmostMatches L t i []"
        using indexOf_None [OF None "1.prems"] by (auto simp: leftmostMatches_def)
      ultimately show ?thesis by (intro exI [of _ "[]"]) simp
    next
      case (Some m)
      note found = indexOf_Some [OF Some]
      from "1.IH" [OF "1.prems" True Some "1.prems"]
      obtain rest where rest: "scanTerm s L t (m + length t)
            = map (\<lambda>p. denylistEntity s p (p + length t)) rest"
        and lm: "leftmostMatches L t (m + length t) rest"
        by blast
      from True Some "1.prems" rest
      have eq: "scanTerm s L t i = map (\<lambda>p. denylistEntity s p (p + length t)) (m # rest)"
        by (subst scanTerm.simps) simp
      from True found(1) have im: "i \<le> m" by simp
      have "leftmostMatches L t i (m # rest)"
        unfolding leftmostMatches_def
      proof (intro conjI ballI impI)
        show "sorted_wrt (\<lambda>p q. p + length t \<le> q) (m # rest)"
          using lm by (auto simp: leftmostMatches_def)
      next
        fix p assume "p \<in> set (m # rest)"
        with lm im found(3) show "i \<le> p" "take (length t) (drop p L) = t"
          by (auto simp: leftmostMatches_def)
      next
        fix q assume q: "q \<in> {i ..< length L}" and hit: "take (length t) (drop q L) = t"
        show "\<exists>p\<in>set (m # rest). p \<le> q \<and> q < p + length t"
        proof (cases "q < m + length t")
          case True
          have "m \<le> q"
          proof (rule ccontr)
            assume "\<not> m \<le> q"
            with q \<open>i \<le> length L\<close> have "min i (length L) \<le> q" "q < m" by auto
            from found(4) [OF this] hit show False by simp
          qed
          with True show ?thesis by auto
        next
          case False
          with q hit lm show ?thesis
            by (auto simp: leftmostMatches_def)
        qed
      qed
      with eq show ?thesis by blast
    qed
  qed
qed

text \<open>The leftmost non-overlapping matches from a cursor are one list, not several.\<close>

lemma leftmostMatches_apart:
  assumes "leftmostMatches L t i zs" "u \<in> set zs" "v \<in> set zs" "u < v"
  shows "u + length t \<le> v"
proof -
  from assms(1) have sw: "sorted_wrt (\<lambda>p q. p + length t \<le> q) zs"
    by (simp add: leftmostMatches_def)
  from assms(2,3) obtain a b where ab: "a < length zs" "zs ! a = u" "b < length zs" "zs ! b = v"
    by (auto simp: in_set_conv_nth)
  show ?thesis
  proof (cases "a < b")
    case True
    from sorted_wrt_nth_less [OF sw True ab(3)] ab show ?thesis by simp
  next
    case False
    with ab assms(4) have "b < a" by (cases "a = b") auto
    from sorted_wrt_nth_less [OF sw this ab(1)] ab assms(4) show ?thesis by simp
  qed
qed

lemma leftmostMatches_subset:
  assumes xs: "leftmostMatches L t i xs" and ys: "leftmostMatches L t i ys" and t: "t \<noteq> []"
    and "p \<in> set xs"
  shows "p \<in> set ys"
  using assms(4)
proof (induction p rule: less_induct)
  case (less p)
  from xs less.prems have occ: "i \<le> p" "take (length t) (drop p L) = t"
    by (auto simp: leftmostMatches_def)
  from occurrence_inside [OF occ(2) t] t have "p < length L" by (cases t) auto
  with occ ys obtain p' where p': "p' \<in> set ys" "p' \<le> p" "p < p' + length t"
    by (auto simp: leftmostMatches_def)
  show ?case
  proof (cases "p' = p")
    case True
    with p' show ?thesis by simp
  next
    case False
    with p' have lt: "p' < p" by simp
    from ys p' have occ': "i \<le> p'" "take (length t) (drop p' L) = t"
      by (auto simp: leftmostMatches_def)
    from occurrence_inside [OF occ'(2) t] t have "p' < length L" by (cases t) auto
    with occ' xs obtain p'' where p'': "p'' \<in> set xs" "p'' \<le> p'" "p' < p'' + length t"
      by (auto simp: leftmostMatches_def)
    from p''(2) lt have "p'' < p" by simp
    from less.IH [OF this p''(1)] have in_ys: "p'' \<in> set ys" .
    have "p'' = p'"
    proof (rule ccontr)
      assume "p'' \<noteq> p'"
      with p''(2) have "p'' < p'" by simp
      from leftmostMatches_apart [OF ys in_ys p'(1) this] p''(3) show False by simp
    qed
    with p''(1) have "p' \<in> set xs" by simp
    from leftmostMatches_apart [OF xs this less.prems lt] p'(3) show ?thesis by simp
  qed
qed

lemma leftmostMatches_strict:
  assumes "leftmostMatches L t i xs" "t \<noteq> []"
  shows "sorted xs \<and> distinct xs"
proof -
  from assms(1) have "sorted_wrt (\<lambda>p q. p + length t \<le> q) xs"
    by (simp add: leftmostMatches_def)
  then have "sorted_wrt (\<lambda>p q. p < q) xs"
    by (rule sorted_wrt_mono_rel [rotated]) (use assms(2) in \<open>cases t; simp\<close>)
  then show ?thesis by (simp add: strict_sorted_iff)
qed

lemma leftmostMatches_unique:
  assumes a: "leftmostMatches L t i ps" and b: "leftmostMatches L t i qs" and t: "t \<noteq> []"
  shows "ps = qs"
proof -
  have "set ps = set qs"
    using leftmostMatches_subset [OF a b t] leftmostMatches_subset [OF b a t] by blast
  with leftmostMatches_strict [OF a t] leftmostMatches_strict [OF b t] show ?thesis
    by (auto intro: sorted_distinct_set_unique)
qed

text \<open>Decimal numerals, and the keys of the scanner's entities.\<close>

lemma digit_inj:
  assumes "a < 10" "b < 10" "''0123456789'' ! a = ''0123456789'' ! b"
  shows "a = b"
proof -
  from assms(1) have a: "a \<in> {0, 1, 2, 3, 4, 5, 6, 7, 8, 9}" by auto
  from assms(2) have b: "b \<in> {0, 1, 2, 3, 4, 5, 6, 7, 8, 9}" by auto
  from a b assms(3) show ?thesis by auto
qed

lemma digit_no_dash:
  assumes "a < 10"
  shows "''0123456789'' ! a \<noteq> CHR ''-''"
proof -
  from assms have "a \<in> {0, 1, 2, 3, 4, 5, 6, 7, 8, 9}" by auto
  then show ?thesis by auto
qed

lemma digitsOf_nonempty: "digitsOf n \<noteq> []"
  by (subst digitsOf.simps) simp

lemma digitsOf_no_dash: "CHR ''-'' \<notin> set (digitsOf n)"
proof (induction n rule: digitsOf.induct)
  case (1 n)
  show ?case
  proof (cases "n < 10")
    case True
    then show ?thesis using digit_no_dash [of n] by (subst digitsOf.simps) auto
  next
    case False
    with "1.IH" digit_no_dash [of "n mod 10"] show ?thesis
      by (subst digitsOf.simps) auto
  qed
qed

lemma digitsOf_inj: "digitsOf a = digitsOf b \<Longrightarrow> a = b"
proof (induction a arbitrary: b rule: digitsOf.induct)
  case (1 a)
  have unfold: "\<And>n. digitsOf n = (if n < 10 then [''0123456789'' ! n]
      else digitsOf (n div 10) @ [''0123456789'' ! (n mod 10)])"
    by (subst digitsOf.simps) simp
  show ?case
  proof (cases "a < 10")
    case True
    note a = this
    show ?thesis
    proof (cases "b < 10")
      case True
      with a "1.prems" have "''0123456789'' ! a = ''0123456789'' ! b"
        by (simp add: unfold [of a] unfold [of b])
      from digit_inj [OF a True this] show ?thesis .
    next
      case False
      with a "1.prems" have "digitsOf (b div 10) = []"
        by (simp add: unfold [of a] unfold [of b])
      with digitsOf_nonempty show ?thesis by blast
    qed
  next
    case False
    note a = this
    show ?thesis
    proof (cases "b < 10")
      case True
      with a "1.prems" have "digitsOf (a div 10) = []"
        by (simp add: unfold [of a] unfold [of b])
      with digitsOf_nonempty show ?thesis by blast
    next
      case False
      with a "1.prems" have eq: "digitsOf (a div 10) = digitsOf (b div 10)"
        and last: "''0123456789'' ! (a mod 10) = ''0123456789'' ! (b mod 10)"
        by (simp_all add: unfold [of a] unfold [of b])
      from "1.IH" [OF a eq] have "a div 10 = b div 10" .
      moreover from digit_inj [OF _ _ last] have "a mod 10 = b mod 10" by simp
      ultimately show ?thesis by (metis div_mult_mod_eq)
    qed
  qed
qed

lemma split_at_dash:
  assumes "xs @ CHR ''-'' # ys = xs' @ CHR ''-'' # ys'"
    and "CHR ''-'' \<notin> set xs" "CHR ''-'' \<notin> set xs'"
  shows "xs = xs' \<and> ys = ys'"
proof -
  have "takeWhile (\<lambda>c. c \<noteq> CHR ''-'') (xs @ CHR ''-'' # ys) = xs"
    using assms(2) by (induction xs) auto
  moreover have "takeWhile (\<lambda>c. c \<noteq> CHR ''-'') (xs' @ CHR ''-'' # ys') = xs'"
    using assms(3) by (induction xs') auto
  ultimately have "xs = xs'" using assms(1) by simp
  with assms(1) show ?thesis by simp
qed

lemma numberToString_nat:
  "n < 10 ^ 21 \<Longrightarrow> numberToString H (Fin (of_nat n)) = digitsOf n"
  by (simp add: numberToString_def isInteger_def)

lemma validOffsets_denylistEntity: "validOffsets (denylistEntity s p q) \<longleftrightarrow> p < q"
  by (simp add: validOffsets_def denylistEntity_def lookup_def)

lemma keyOf_denylistEntity:
  "p < 10 ^ 21 \<Longrightarrow> q < 10 ^ 21 \<Longrightarrow>
     keyOf H (denylistEntity s p q)
       = Some (digitsOf p @ ''-'' @ digitsOf q @ ''-DENYLIST_TERM'')"
  by (simp add: keyOf_def denylistEntity_def lookup_def entityKey_def numberToString_nat)

lemma keyOf_denylistEntity_inj:
  assumes "p < 10 ^ 21" "q < 10 ^ 21" "p' < 10 ^ 21" "q' < 10 ^ 21"
    and "keyOf H (denylistEntity s p q) = keyOf H (denylistEntity s p' q')"
  shows "p = p' \<and> q = q'"
proof -
  from assms have "digitsOf p @ CHR ''-'' # (digitsOf q @ ''-DENYLIST_TERM'')
      = digitsOf p' @ CHR ''-'' # (digitsOf q' @ ''-DENYLIST_TERM'')"
    by (simp add: keyOf_denylistEntity)
  from split_at_dash [OF this digitsOf_no_dash digitsOf_no_dash]
  have "digitsOf p = digitsOf p'" "digitsOf q = digitsOf q'" by simp_all
  then show ?thesis by (simp add: digitsOf_inj)
qed

text \<open>Merging nothing with entities of pairwise distinct keys changes nothing.\<close>

lemma survivors_all:
  "(\<And>e. e \<in> set es \<Longrightarrow> validOffsets e \<and> (\<exists>k. keyOf H e = Some k \<and> k \<notin> seen))
     \<Longrightarrow> distinct (map (keyOf H) es) \<Longrightarrow> survivors H seen es = es"
proof (induction es arbitrary: seen)
  case Nil
  then show ?case by simp
next
  case (Cons e es)
  from Cons.prems(1) [of e] obtain k where k: "validOffsets e" "keyOf H e = Some k" "k \<notin> seen"
    by auto
  have "survivors H (insert k seen) es = es"
  proof (rule Cons.IH)
    fix x assume x: "x \<in> set es"
    from Cons.prems(1) [of x] x obtain kx where kx: "validOffsets x" "keyOf H x = Some kx" "kx \<notin> seen"
      by auto
    from Cons.prems(2) x k(2) kx(2) have "kx \<noteq> k" by force
    with kx show "validOffsets x \<and> (\<exists>k'. keyOf H x = Some k' \<and> k' \<notin> insert k seen)" by simp
  next
    from Cons.prems(2) show "distinct (map (keyOf H) es)" by simp
  qed
  with k show ?case by simp
qed

lemma mergeEntities_only_supplemental:
  assumes "\<And>e. e \<in> set es \<Longrightarrow> validOffsets e \<and> keyOf H e \<noteq> None"
    and "distinct (map (keyOf H) es)"
  shows "mergeEntities H [] es = Some es"
proof -
  have "pushAll H ({}, []) es \<noteq> None"
    by (rule pushAll_total) (use assms(1) in auto)
  then obtain state where state: "pushAll H ({}, []) es = Some state" by blast
  have "survivors H {} es = es"
    by (rule survivors_all) (use assms in auto)
  with pushAll_survivors [OF state] have "snd state = es" by simp
  with state show ?thesis by (simp add: mergeEntities_def)
qed

lemma distinct_map_concat:
  assumes "distinct ts"
    and "\<And>t. t \<in> set ts \<Longrightarrow> distinct (map g (f t))"
    and "\<And>t t' x y. t \<in> set ts \<Longrightarrow> t' \<in> set ts \<Longrightarrow> t \<noteq> t' \<Longrightarrow> x \<in> set (f t) \<Longrightarrow> y \<in> set (f t')
          \<Longrightarrow> g x \<noteq> g y"
  shows "distinct (map g (concat (map f ts)))"
  using assms
proof (induction ts)
  case Nil
  then show ?case by simp
next
  case (Cons t ts)
  have rest: "distinct (map g (concat (map f ts)))"
  proof (rule Cons.IH)
    show "distinct ts" using Cons.prems(1) by simp
    show "\<And>t'. t' \<in> set ts \<Longrightarrow> distinct (map g (f t'))"
      using Cons.prems(2) by simp
    show "\<And>u u' x y. u \<in> set ts \<Longrightarrow> u' \<in> set ts \<Longrightarrow> u \<noteq> u' \<Longrightarrow> x \<in> set (f u)
        \<Longrightarrow> y \<in> set (f u') \<Longrightarrow> g x \<noteq> g y"
      using Cons.prems(3) by (meson list.set_intros(2))
  qed
  have apart: "g x \<noteq> g y" if "x \<in> set (f t)" "y \<in> set (concat (map f ts))" for x y
  proof -
    from that(2) obtain t' where t': "t' \<in> set ts" "y \<in> set (f t')" by auto
    with Cons.prems(1) have "t \<noteq> t'" by auto
    from Cons.prems(3) [OF _ _ this that(1) t'(2)] t'(1) show ?thesis by simp
  qed
  from Cons.prems(2) [of t] rest apart show ?case by auto
qed

lemma below_bound:
  fixes B :: nat
  assumes "p + n \<le> l" "l < B"
  shows "p < B" and "p + n < B"
  using assms by arith+

text \<open>What the scanner emits for a list of terms, with a text of a length a string can have.\<close>

lemma findDenylistEntities_keys:
  assumes "distinct ts" "[] \<notin> set ts" "length (toLowerCase H s) < 10 ^ 21"
  shows "distinct (map (keyOf H) (findDenylistEntities H (JStr s) ts))"
    and "\<And>e. e \<in> set (findDenylistEntities H (JStr s) ts) \<Longrightarrow> validOffsets e \<and> keyOf H e \<noteq> None"
proof -
  let ?L = "toLowerCase H s"
  let ?f = "\<lambda>t. scanTerm s ?L t 0"
  have eq: "findDenylistEntities H (JStr s) ts = concat (map ?f ts)"
    by (cases ts) (simp_all add: findDenylistEntities_def)
  have shape: "\<exists>p. e = denylistEntity s p (p + length t) \<and> take (length t) (drop p ?L) = t
      \<and> p + length t \<le> length ?L"
    if "t \<in> set ts" "e \<in> set (?f t)" for t e
  proof -
    from that(1) assms(2) have t: "t \<noteq> []" by auto
    from scanTerm_leftmost [OF t, of s ?L 0] obtain starts
      where starts: "?f t = map (\<lambda>p. denylistEntity s p (p + length t)) starts"
        and lm: "leftmostMatches ?L t 0 starts" by blast
    from that(2) starts obtain p where p: "p \<in> set starts" "e = denylistEntity s p (p + length t)"
      by auto
    from lm p(1) have occ: "take (length t) (drop p ?L) = t" by (simp add: leftmostMatches_def)
    from occurrence_inside [OF occ t] occ p(2) show ?thesis by blast
  qed
  show "distinct (map (keyOf H) (findDenylistEntities H (JStr s) ts))"
    unfolding eq
  proof (rule distinct_map_concat [OF assms(1)])
    fix t assume tin: "t \<in> set ts"
    with assms(2) have t: "t \<noteq> []" by auto
    from scanTerm_leftmost [OF t, of s ?L 0] obtain starts
      where starts: "?f t = map (\<lambda>p. denylistEntity s p (p + length t)) starts"
        and lm: "leftmostMatches ?L t 0 starts" by blast
    have bound: "p + length t < 10 ^ 21" if "p \<in> set starts" for p
    proof -
      from lm that have "take (length t) (drop p ?L) = t" by (simp add: leftmostMatches_def)
      from occurrence_inside [OF this t] have "p + length t \<le> length ?L" .
      from below_bound(2) [OF this assms(3)] show ?thesis .
    qed
    have "inj_on (\<lambda>p. keyOf H (denylistEntity s p (p + length t))) (set starts)"
    proof (rule inj_onI)
      fix p q assume pq: "p \<in> set starts" "q \<in> set starts"
        and k: "keyOf H (denylistEntity s p (p + length t)) = keyOf H (denylistEntity s q (q + length t))"
      note pb = add_lessD1 [OF bound [OF pq(1)]] and qb = add_lessD1 [OF bound [OF pq(2)]]
      from keyOf_denylistEntity_inj [OF pb bound [OF pq(1)] qb bound [OF pq(2)] k]
      show "p = q" by simp
    qed
    moreover from leftmostMatches_strict [OF lm t] have "distinct starts" by simp
    ultimately have "distinct (map (\<lambda>p. keyOf H (denylistEntity s p (p + length t))) starts)"
      by (simp add: distinct_map)
    then show "distinct (map (keyOf H) (scanTerm s (toLowerCase H s) t 0))"
      by (simp add: starts comp_def)
  next
    fix t t' x y
    assume tt: "t \<in> set ts" "t' \<in> set ts" "t \<noteq> t'" and x: "x \<in> set (?f t)" and y: "y \<in> set (?f t')"
    from shape [OF tt(1) x] obtain p where p: "x = denylistEntity s p (p + length t)"
      "take (length t) (drop p ?L) = t" "p + length t \<le> length ?L" by blast
    from shape [OF tt(2) y] obtain q where q: "y = denylistEntity s q (q + length t')"
      "take (length t') (drop q ?L) = t'" "q + length t' \<le> length ?L" by blast
    show "keyOf H x \<noteq> keyOf H y"
    proof
      assume k: "keyOf H x = keyOf H y"
      note below_bound [OF p(3) assms(3)] below_bound [OF q(3) assms(3)]
      from keyOf_denylistEntity_inj [OF this k [unfolded p(1) q(1)]]
      have same: "p = q" "length t = length t'" by simp_all
      have "t = take (length t) (drop p ?L)" by (rule p(2) [symmetric])
      also have "\<dots> = take (length t') (drop q ?L)" by (simp only: same)
      also have "\<dots> = t'" by (rule q(2))
      finally have "t = t'" .
      with tt(3) show False by simp
    qed
  qed
  fix e assume "e \<in> set (findDenylistEntities H (JStr s) ts)"
  then obtain t where t: "t \<in> set ts" "e \<in> set (?f t)" unfolding eq by auto
  from shape [OF this] obtain p where p: "e = denylistEntity s p (p + length t)"
    "p + length t \<le> length ?L" by blast
  from t(1) assms(2) have "t \<noteq> []" by auto
  then have "p < p + length t" by (cases t) simp_all
  then have "validOffsets e"
    by (simp add: p(1) validOffsets_denylistEntity)
  moreover have "keyOf H e \<noteq> None"
    unfolding p(1) using keyOf_denylistEntity [OF below_bound [OF p(2) assms(3)]] by simp
  ultimately show "validOffsets e \<and> keyOf H e \<noteq> None" by simp
qed

lemma filterStages_empty_detection:
  assumes "distinct ts" "[] \<notin> set ts" "length (toLowerCase H s) < 10 ^ 21"
  shows "filterStages H types threshold allow ts (JStr s) (JArr [])
    = Some (findDenylistEntities H (JStr s) ts)"
proof -
  have "mergeEntities H [] (findDenylistEntities H (JStr s) ts)
      = Some (findDenylistEntities H (JStr s) ts)"
    by (rule mergeEntities_only_supplemental)
       (use findDenylistEntities_keys [OF assms] in auto)
  then show ?thesis by (simp add: filterStages_def)
qed

section \<open>The entity merger: the key, and what survives\<close>

lemma keyOf_form:
  assumes "optProp entity ''start'' = JNum (Fin s)" "optProp entity ''end'' = JNum (Fin e)"
    and "optProp entity ''entity_type'' = JStr ty"
  shows "keyOf H entity
    = Some (numberToString H (Fin s) @ ''-'' @ numberToString H (Fin e) @ ''-'' @ ty)"
  using assms by (simp add: keyOf_def entityKey_def)

lemma keyOf_form_untyped:
  assumes "optProp entity ''start'' = JNum (Fin s)" "optProp entity ''end'' = JNum (Fin e)"
    and "optProp entity ''entity_type'' = JUndefined \<or> optProp entity ''entity_type'' = JNull"
  shows "keyOf H entity
    = Some (numberToString H (Fin s) @ ''-'' @ numberToString H (Fin e) @ ''-'')"
  using assms by (auto simp: keyOf_def entityKey_def)

lemma keyOf_nat_inj:
  fixes sa ea sb eb :: nat
  assumes a: "optProp a ''start'' = JNum (Fin (of_nat sa))" "optProp a ''end'' = JNum (Fin (of_nat ea))"
      "optProp a ''entity_type'' = JStr ta"
    and b: "optProp b ''start'' = JNum (Fin (of_nat sb))" "optProp b ''end'' = JNum (Fin (of_nat eb))"
      "optProp b ''entity_type'' = JStr tb"
    and bounds: "sa < 10 ^ 21" "ea < 10 ^ 21" "sb < 10 ^ 21" "eb < 10 ^ 21"
  shows "keyOf H a = keyOf H b \<longleftrightarrow> sa = sb \<and> ea = eb \<and> ta = tb"
proof
  assume "keyOf H a = keyOf H b"
  then have "digitsOf sa @ CHR ''-'' # (digitsOf ea @ CHR ''-'' # ta)
      = digitsOf sb @ CHR ''-'' # (digitsOf eb @ CHR ''-'' # tb)"
    by (simp add: keyOf_form [OF a] keyOf_form [OF b] numberToString_nat [OF bounds(1)]
        numberToString_nat [OF bounds(2)] numberToString_nat [OF bounds(3)]
        numberToString_nat [OF bounds(4)])
  from split_at_dash [OF this digitsOf_no_dash digitsOf_no_dash]
  have first: "digitsOf sa = digitsOf sb"
    and rest: "digitsOf ea @ CHR ''-'' # ta = digitsOf eb @ CHR ''-'' # tb"
    by simp_all
  from split_at_dash [OF rest digitsOf_no_dash digitsOf_no_dash]
  have "digitsOf ea = digitsOf eb" "ta = tb" by simp_all
  with first show "sa = sb \<and> ea = eb \<and> ta = tb" by (simp add: digitsOf_inj)
next
  assume "sa = sb \<and> ea = eb \<and> ta = tb"
  then show "keyOf H a = keyOf H b"
    by (simp add: keyOf_form [OF a] keyOf_form [OF b])
qed

lemma mergeEntities_survivors_in_order:
  "(\<forall>merged. mergeEntities H primary supplemental = Some merged \<longrightarrow>
      distinct (map (keyOf H) merged)
    \<and> (\<forall>e\<in>set merged. validOffsets e)
    \<and> (\<forall>e\<in>set (primary @ supplemental).
          validOffsets e \<longrightarrow> keyOf H e \<in> set (map (keyOf H) merged))
    \<and> (\<forall>e\<in>set merged.
          List.find (\<lambda>x. validOffsets x \<and> keyOf H x = keyOf H e) (primary @ supplemental) = Some e)
    \<and> (\<exists>kept added.
          merged = kept @ added
        \<and> subseq kept primary \<and> subseq added supplemental
        \<and> mergeEntities H primary [] = Some kept
        \<and> (\<forall>e\<in>set added. keyOf H e \<notin> set (map (keyOf H) kept))))
   \<and> ((\<forall>e\<in>set (primary @ supplemental). validOffsets e \<longrightarrow> keyOf H e \<noteq> None)
        \<longrightarrow> mergeEntities H primary supplemental \<noteq> None)"
proof (intro conjI allI impI)
  fix merged
  assume merge: "mergeEntities H primary supplemental = Some merged"
  note eq = mergeEntities_survivors [OF merge]
  show "distinct (map (keyOf H) merged)"
    by (simp add: eq(1) distinct_survivors)
  show "\<forall>e\<in>set merged. validOffsets e"
    using survivors_valid by (auto simp: eq(1))
  show "\<forall>e\<in>set merged.
      List.find (\<lambda>x. validOffsets x \<and> keyOf H x = keyOf H e) (primary @ supplemental) = Some e"
    using survivors_first by (auto simp: eq(1))
  from merge obtain mid last where mid: "pushAll H ({}, []) primary = Some mid"
    and last: "pushAll H mid supplemental = Some last"
    by (auto simp: mergeEntities_def split: bind_splits)
  show "\<forall>e\<in>set (primary @ supplemental).
      validOffsets e \<longrightarrow> keyOf H e \<in> set (map (keyOf H) merged)"
  proof (intro ballI impI)
    fix e assume e: "e \<in> set (primary @ supplemental)" "validOffsets e"
    have "keyOf H e \<noteq> None"
      using e pushAll_keys_defined [OF mid] pushAll_keys_defined [OF last] by auto
    then obtain k where k: "keyOf H e = Some k" by blast
    from survivors_complete [OF e k, of "{}"] have "k \<in> keysOf H merged"
      by (simp add: eq(1))
    with k show "keyOf H e \<in> set (map (keyOf H) merged)"
      by (simp add: keysOf_def)
  qed
  let ?kept = "survivors H {} primary"
  let ?added = "survivors H (keysOf H ?kept) supplemental"
  have split: "merged = ?kept @ ?added"
    by (simp add: eq(1) survivors_append)
  have fresh: "\<forall>e\<in>set ?added. keyOf H e \<notin> set (map (keyOf H) ?kept)"
  proof
    fix e assume "e \<in> set ?added"
    from survivors_valid [OF this] obtain k where "keyOf H e = Some k" "k \<notin> keysOf H ?kept"
      by blast
    then show "keyOf H e \<notin> set (map (keyOf H) ?kept)"
      by (simp add: keysOf_def)
  qed
  from split fresh eq(2) subseq_survivors [of H "{}" primary]
    subseq_survivors [of H "keysOf H ?kept" supplemental]
  show "\<exists>kept added.
          merged = kept @ added
        \<and> subseq kept primary \<and> subseq added supplemental
        \<and> mergeEntities H primary [] = Some kept
        \<and> (\<forall>e\<in>set added. keyOf H e \<notin> set (map (keyOf H) kept))"
    by blast
next
  assume keys: "\<forall>e\<in>set (primary @ supplemental). validOffsets e \<longrightarrow> keyOf H e \<noteq> None"
  have "pushAll H ({}, []) primary \<noteq> None"
    by (rule pushAll_total) (use keys in auto)
  then obtain mid where mid: "pushAll H ({}, []) primary = Some mid" by blast
  have "pushAll H mid supplemental \<noteq> None"
    by (rule pushAll_total) (use keys in auto)
  with mid show "mergeEntities H primary supplemental \<noteq> None"
    by (auto simp: mergeEntities_def)
qed


text \<open>
  C5: the key of a candidate is \<^verbatim>\<open>`${start}-${end}-${entityType}`\<close> (an absent type
  printing as the empty string), so that two candidates with whole-number offsets and
  string types have the same key iff they have the same start, end and type. For every
  pair of entity lists the merged output has at most one entity per key, and the first
  candidate seen with a key is the one kept; every candidate whose \<^verbatim>\<open>start\<close> or \<^verbatim>\<open>end\<close>
  is not a finite number, or with \<open>start \<ge> end\<close>, is dropped, and every other candidate's
  key is in the output; the output is the surviving primary entities in their original
  order (what merging the primary list alone gives) followed by the supplemental entities
  with a key not seen before, in their original order. The merge returns whenever every
  key can be built.
\<close>

theorem mergeEntities_first_seen_wins:
  "(\<forall>entity s e ty.
        optProp entity ''start'' = JNum (Fin s) \<and> optProp entity ''end'' = JNum (Fin e)
        \<and> optProp entity ''entity_type'' = JStr ty
      \<longrightarrow> keyOf H entity
            = Some (numberToString H (Fin s) @ ''-'' @ numberToString H (Fin e) @ ''-'' @ ty))
   \<and> (\<forall>entity s e.
        optProp entity ''start'' = JNum (Fin s) \<and> optProp entity ''end'' = JNum (Fin e)
        \<and> (optProp entity ''entity_type'' = JUndefined \<or> optProp entity ''entity_type'' = JNull)
      \<longrightarrow> keyOf H entity
            = Some (numberToString H (Fin s) @ ''-'' @ numberToString H (Fin e) @ ''-''))
   \<and> (\<forall>a b (sa :: nat) (ea :: nat) (sb :: nat) (eb :: nat) ta tb.
        optProp a ''start'' = JNum (Fin (of_nat sa)) \<and> optProp a ''end'' = JNum (Fin (of_nat ea))
        \<and> optProp a ''entity_type'' = JStr ta
        \<and> optProp b ''start'' = JNum (Fin (of_nat sb)) \<and> optProp b ''end'' = JNum (Fin (of_nat eb))
        \<and> optProp b ''entity_type'' = JStr tb
        \<and> sa < 10 ^ 21 \<and> ea < 10 ^ 21 \<and> sb < 10 ^ 21 \<and> eb < 10 ^ 21
      \<longrightarrow> (keyOf H a = keyOf H b \<longleftrightarrow> sa = sb \<and> ea = eb \<and> ta = tb))
   \<and> (\<forall>merged. mergeEntities H primary supplemental = Some merged \<longrightarrow>
      distinct (map (keyOf H) merged)
    \<and> (\<forall>e\<in>set merged. validOffsets e)
    \<and> (\<forall>e\<in>set (primary @ supplemental).
          validOffsets e \<longrightarrow> keyOf H e \<in> set (map (keyOf H) merged))
    \<and> (\<forall>e\<in>set merged.
          List.find (\<lambda>x. validOffsets x \<and> keyOf H x = keyOf H e) (primary @ supplemental) = Some e)
    \<and> (\<exists>kept added.
          merged = kept @ added
        \<and> subseq kept primary \<and> subseq added supplemental
        \<and> mergeEntities H primary [] = Some kept
        \<and> (\<forall>e\<in>set added. keyOf H e \<notin> set (map (keyOf H) kept))))
   \<and> ((\<forall>e\<in>set (primary @ supplemental). validOffsets e \<longrightarrow> keyOf H e \<noteq> None)
        \<longrightarrow> mergeEntities H primary supplemental \<noteq> None)"
proof -
  have form: "\<forall>entity s e ty.
        optProp entity ''start'' = JNum (Fin s) \<and> optProp entity ''end'' = JNum (Fin e)
        \<and> optProp entity ''entity_type'' = JStr ty
      \<longrightarrow> keyOf H entity
            = Some (numberToString H (Fin s) @ ''-'' @ numberToString H (Fin e) @ ''-'' @ ty)"
    by (intro allI impI) (elim conjE, rule keyOf_form)
  have untyped: "\<forall>entity s e.
        optProp entity ''start'' = JNum (Fin s) \<and> optProp entity ''end'' = JNum (Fin e)
        \<and> (optProp entity ''entity_type'' = JUndefined \<or> optProp entity ''entity_type'' = JNull)
      \<longrightarrow> keyOf H entity
            = Some (numberToString H (Fin s) @ ''-'' @ numberToString H (Fin e) @ ''-'')"
    by (intro allI impI) (elim conjE, rule keyOf_form_untyped)
  have inj: "\<forall>a b (sa :: nat) (ea :: nat) (sb :: nat) (eb :: nat) ta tb.
        optProp a ''start'' = JNum (Fin (of_nat sa)) \<and> optProp a ''end'' = JNum (Fin (of_nat ea))
        \<and> optProp a ''entity_type'' = JStr ta
        \<and> optProp b ''start'' = JNum (Fin (of_nat sb)) \<and> optProp b ''end'' = JNum (Fin (of_nat eb))
        \<and> optProp b ''entity_type'' = JStr tb
        \<and> sa < 10 ^ 21 \<and> ea < 10 ^ 21 \<and> sb < 10 ^ 21 \<and> eb < 10 ^ 21
      \<longrightarrow> (keyOf H a = keyOf H b \<longleftrightarrow> sa = sb \<and> ea = eb \<and> ta = tb)"
    by (intro allI impI) (elim conjE, rule keyOf_nat_inj)
  note order = mergeEntities_survivors_in_order [of H primary supplemental]
  show ?thesis
    by (intro conjI form untyped inj order [THEN conjunct1] order [THEN conjunct2])
qed

theorem mergeEntities_first_seen_wins_witness:
  "mergeEntities refHost
     [JObj [(''entity_type'', JStr ''PERSON''), (''start'', JNum (Fin 0)), (''end'', JNum (Fin 3)),
            (''score'', JNum (Fin (9 / 10)))],
      JNull,
      JObj [(''entity_type'', JStr ''PERSON''), (''start'', JStr ''5''), (''end'', JNum (Fin 16))],
      JObj [(''entity_type'', JStr ''PERSON''), (''start'', JNum (Fin 14)), (''end'', JNum (Fin 17))],
      JObj [(''entity_type'', JStr ''PERSON''), (''start'', JNum (Fin 0)), (''end'', JNum (Fin 3)),
            (''score'', JNum (Fin (1 / 2)))]]
     [JObj [(''entity_type'', JStr ''DENYLIST_TERM''), (''start'', JNum (Fin 0)),
            (''end'', JNum (Fin 3))],
      JObj [(''entity_type'', JStr ''PERSON''), (''start'', JNum (Fin 14)), (''end'', JNum (Fin 17))],
      JObj [(''entity_type'', JStr ''PERSON''), (''start'', JNum (Fin 16)), (''end'', JNum (Fin 5))],
      JObj [(''entity_type'', JStr ''PERSON''), (''start'', JNum (Fin 14)), (''end'', JNum (Fin 18))]]
   = Some
     [JObj [(''entity_type'', JStr ''PERSON''), (''start'', JNum (Fin 0)), (''end'', JNum (Fin 3)),
            (''score'', JNum (Fin (9 / 10)))],
      JObj [(''entity_type'', JStr ''PERSON''), (''start'', JNum (Fin 14)), (''end'', JNum (Fin 17))],
      JObj [(''entity_type'', JStr ''DENYLIST_TERM''), (''start'', JNum (Fin 0)),
            (''end'', JNum (Fin 3))],
      JObj [(''entity_type'', JStr ''PERSON''), (''start'', JNum (Fin 14)), (''end'', JNum (Fin 18))]]
   \<and> distinct (map (keyOf refHost)
     [JObj [(''entity_type'', JStr ''PERSON''), (''start'', JNum (Fin 0)), (''end'', JNum (Fin 3)),
            (''score'', JNum (Fin (9 / 10)))],
      JObj [(''entity_type'', JStr ''PERSON''), (''start'', JNum (Fin 14)), (''end'', JNum (Fin 17))],
      JObj [(''entity_type'', JStr ''DENYLIST_TERM''), (''start'', JNum (Fin 0)),
            (''end'', JNum (Fin 3))],
      JObj [(''entity_type'', JStr ''PERSON''), (''start'', JNum (Fin 14)), (''end'', JNum (Fin 18))]])
   \<and> keyOf refHost
       (JObj [(''entity_type'', JStr ''PERSON''), (''start'', JNum (Fin 14)), (''end'', JNum (Fin 17))])
     = Some ''14-17-PERSON''
   \<and> keyOf refHost
       (JObj [(''entity_type'', JStr ''PERSON''), (''start'', JNum (Fin 0)), (''end'', JNum (Fin 3)),
              (''score'', JNum (Fin (9 / 10)))])
     \<noteq> keyOf refHost
       (JObj [(''entity_type'', JStr ''PERSON''), (''start'', JNum (Fin 14)), (''end'', JNum (Fin 17))])"
  (is "mergeEntities refHost ?primary ?supplemental = Some ?merged \<and> _ \<and> keyOf refHost ?later = _
     \<and> keyOf refHost ?first \<noteq> _")
proof -
  note wins = mergeEntities_first_seen_wins [where H = refHost and primary = ?primary
      and supplemental = ?supplemental]
  have merge: "mergeEntities refHost ?primary ?supplemental = Some ?merged"
    by code_simp
  from wins [THEN conjunct2, THEN conjunct2, THEN conjunct2, THEN conjunct1, rule_format,
      OF merge, THEN conjunct1]
  have one: "distinct (map (keyOf refHost) ?merged)" .
  have later: "optProp ?later ''start'' = JNum (Fin 14) \<and> optProp ?later ''end'' = JNum (Fin 17)
      \<and> optProp ?later ''entity_type'' = JStr ''PERSON''"
    by (simp add: lookup_def)
  from wins [THEN conjunct1, rule_format, OF later]
  have "keyOf refHost ?later
      = Some (numberToString refHost (Fin 14) @ ''-'' @ numberToString refHost (Fin 17)
          @ ''-'' @ ''PERSON'')" .
  also have "\<dots> = Some ''14-17-PERSON''"
    by code_simp
  finally have form: "keyOf refHost ?later = Some ''14-17-PERSON''" .
  have spans: "optProp ?first ''start'' = JNum (Fin (of_nat 0))
      \<and> optProp ?first ''end'' = JNum (Fin (of_nat 3))
      \<and> optProp ?first ''entity_type'' = JStr ''PERSON''
      \<and> optProp ?later ''start'' = JNum (Fin (of_nat 14))
      \<and> optProp ?later ''end'' = JNum (Fin (of_nat 17))
      \<and> optProp ?later ''entity_type'' = JStr ''PERSON''
      \<and> (0 :: nat) < 10 ^ 21 \<and> (3 :: nat) < 10 ^ 21 \<and> (14 :: nat) < 10 ^ 21
      \<and> (17 :: nat) < 10 ^ 21"
    by (simp add: lookup_def)
  from wins [THEN conjunct2, THEN conjunct2, THEN conjunct1, rule_format, OF spans]
  have apart: "keyOf refHost ?first \<noteq> keyOf refHost ?later" by simp
  from merge one form apart show ?thesis by (intro conjI)
qed

section \<open>The denylist scanner and the floor it gives\<close>

lemma slice_nat:
  "a \<le> b \<Longrightarrow> slice s (of_nat a) (of_nat b) = take (b - a) (drop a s)"
  by (auto simp: slice_def truncate_def relativeIndex_def Let_def min_def)

lemma findDenylistEntities_concat:
  "findDenylistEntities H (JStr s) ts
     = concat (map (\<lambda>t. scanTerm s (toLowerCase H s) t 0) (filter (\<lambda>t. t \<noteq> []) ts))"
proof -
  have "concat (map (\<lambda>t. scanTerm s L t 0) ts)
      = concat (map (\<lambda>t. scanTerm s L t 0) (filter (\<lambda>t. t \<noteq> []) ts))" for L
    by (induction ts) (simp_all add: scanTerm.simps [of _ _ "[]"])
  then show ?thesis by (cases ts) (simp_all add: findDenylistEntities_def)
qed

text \<open>
  What the scanner emits, for every host: term by term in the order of the set and for the
  non-empty terms only, one synthetic entity per match in the list of the non-overlapping,
  left-to-right matches of the term in the lower-cased source text (\<open>leftmostMatches\<close>
  from cursor \<open>0\<close>, a list that is unique), with the offsets of the match in the
  lower-cased text and the slice of the source text at these offsets. Where lower-casing
  works character by character, that slice lower-cases to the term. With empty detection
  output the pipeline's output is exactly the scanner's entities.
\<close>

lemma findDenylistEntities_leftmost_matches:
  "(\<exists>startsOf.
      findDenylistEntities H (JStr sourceText) denylistSet
        = concat (map (\<lambda>term. map (\<lambda>start.
              JObj [(''entity_type'', JStr ''DENYLIST_TERM''),
                    (''start'', JNum (Fin (of_nat start))),
                    (''end'', JNum (Fin (of_nat (start + length term)))),
                    (''score'', JNum (Fin 1)),
                    (''recognizer_result'', JStr ''denylist''),
                    (''text'', JStr (slice sourceText (of_nat start) (of_nat (start + length term))))])
              (startsOf term))
            (filter (\<lambda>term. term \<noteq> []) denylistSet))
    \<and> (\<forall>term\<in>set denylistSet. term \<noteq> [] \<longrightarrow>
          leftmostMatches (toLowerCase H sourceText) term 0 (startsOf term))
    \<and> ((\<forall>x. toLowerCase H x = map lower x) \<longrightarrow>
          (\<forall>term\<in>set denylistSet. term \<noteq> [] \<longrightarrow>
            (\<forall>start\<in>set (startsOf term).
               map lower (slice sourceText (of_nat start) (of_nat (start + length term))) = term))))
   \<and> (optProp body ''text'' = JStr sourceText \<and> trim sourceText \<noteq> []
        \<and> length (toLowerCase H sourceText) < 10 ^ 21
      \<longrightarrow> anonymizeEntities H body (JArr [])
            = Entities (findDenylistEntities H (JStr sourceText)
                (buildTermSet H (optProp body ''denylist''))))"
proof (intro conjI impI)
  let ?L = "toLowerCase H sourceText"
  have "\<forall>t. \<exists>starts. t \<noteq> [] \<longrightarrow>
      scanTerm sourceText ?L t 0 = map (\<lambda>p. denylistEntity sourceText p (p + length t)) starts
      \<and> leftmostMatches ?L t 0 starts"
    using scanTerm_leftmost by blast
  then obtain startsOf where startsOf: "\<And>t. t \<noteq> [] \<Longrightarrow>
      scanTerm sourceText ?L t 0 = map (\<lambda>p. denylistEntity sourceText p (p + length t)) (startsOf t)
      \<and> leftmostMatches ?L t 0 (startsOf t)"
    by metis
  have emitted: "findDenylistEntities H (JStr sourceText) denylistSet
      = concat (map (\<lambda>t. map (\<lambda>p. denylistEntity sourceText p (p + length t)) (startsOf t))
          (filter (\<lambda>t. t \<noteq> []) denylistSet))"
    unfolding findDenylistEntities_concat
    by (rule arg_cong [where f = concat], rule map_cong) (simp_all add: startsOf)
  have matches: "\<forall>t\<in>set denylistSet. t \<noteq> [] \<longrightarrow> leftmostMatches ?L t 0 (startsOf t)"
    using startsOf by blast
  have insensitive: "(\<forall>x. toLowerCase H x = map lower x) \<longrightarrow>
      (\<forall>t\<in>set denylistSet. t \<noteq> [] \<longrightarrow>
        (\<forall>p\<in>set (startsOf t).
           map lower (slice sourceText (of_nat p) (of_nat (p + length t))) = t))"
  proof (intro impI ballI)
    fix t p assume lower: "\<forall>x. toLowerCase H x = map lower x" and t: "t \<noteq> []"
      and p: "p \<in> set (startsOf t)"
    from startsOf [OF t] p have "take (length t) (drop p ?L) = t"
      by (simp add: leftmostMatches_def)
    with lower have "take (length t) (drop p (map lower sourceText)) = t" by simp
    moreover have "slice sourceText (of_nat p) (of_nat (p + length t))
        = take (length t) (drop p sourceText)"
      using slice_nat [of p "p + length t" sourceText] by (simp del: of_nat_add)
    ultimately show "map lower (slice sourceText (of_nat p) (of_nat (p + length t))) = t"
      by (simp add: take_map drop_map del: of_nat_add)
  qed
  from emitted matches insensitive
  show "\<exists>startsOf.
      findDenylistEntities H (JStr sourceText) denylistSet
        = concat (map (\<lambda>term. map (\<lambda>start.
              JObj [(''entity_type'', JStr ''DENYLIST_TERM''),
                    (''start'', JNum (Fin (of_nat start))),
                    (''end'', JNum (Fin (of_nat (start + length term)))),
                    (''score'', JNum (Fin 1)),
                    (''recognizer_result'', JStr ''denylist''),
                    (''text'', JStr (slice sourceText (of_nat start) (of_nat (start + length term))))])
              (startsOf term))
            (filter (\<lambda>term. term \<noteq> []) denylistSet))
    \<and> (\<forall>term\<in>set denylistSet. term \<noteq> [] \<longrightarrow>
          leftmostMatches (toLowerCase H sourceText) term 0 (startsOf term))
    \<and> ((\<forall>x. toLowerCase H x = map lower x) \<longrightarrow>
          (\<forall>term\<in>set denylistSet. term \<noteq> [] \<longrightarrow>
            (\<forall>start\<in>set (startsOf term).
               map lower (slice sourceText (of_nat start) (of_nat (start + length term))) = term)))"
    unfolding denylistEntity_def by (intro exI [of _ startsOf]) blast
next
  assume a: "optProp body ''text'' = JStr sourceText \<and> trim sourceText \<noteq> []
      \<and> length (toLowerCase H sourceText) < 10 ^ 21"
  let ?deny = "buildTermSet H (optProp body ''denylist'')"
  from a have "filterStages H types threshold allow ?deny (JStr sourceText) (JArr [])
      = Some (findDenylistEntities H (JStr sourceText) ?deny)" for types threshold allow
    by (intro filterStages_empty_detection distinct_buildTermSet buildTermSet_no_empty_term) simp
  with a show "anonymizeEntities H body (JArr [])
      = Entities (findDenylistEntities H (JStr sourceText) ?deny)"
    by (simp add: anonymizeEntities_def Let_def)
qed

lemma findDenylistEntities_leftmost_matches_example:
  "anonymizeEntities refHost
     (JObj [(''text'', JStr ''Secret project CodeAlpha is active''),
            (''denylist'', JStr ''CodeAlpha'')])
     (JArr [])
   = Entities
       [JObj [(''entity_type'', JStr ''DENYLIST_TERM''),
              (''start'', JNum (Fin 15)),
              (''end'', JNum (Fin 24)),
              (''score'', JNum (Fin 1)),
              (''recognizer_result'', JStr ''denylist''),
              (''text'', JStr ''CodeAlpha'')]]"
proof -
  let ?text = "''Secret project CodeAlpha is active''"
  let ?body = "JObj [(''text'', JStr ?text), (''denylist'', JStr ''CodeAlpha'')]"
  have source: "optProp ?body ''text'' = JStr ?text"
    by (simp add: lookup_def)
  have nonblank: "trim ?text \<noteq> []"
    by code_simp
  have short: "length (toLowerCase refHost ?text) < 10 ^ 21"
    by (simp add: refHost_def)
  have found: "findDenylistEntities refHost (JStr ?text)
      (buildTermSet refHost (optProp ?body ''denylist''))
    = [JObj [(''entity_type'', JStr ''DENYLIST_TERM''),
              (''start'', JNum (Fin 15)),
              (''end'', JNum (Fin 24)),
              (''score'', JNum (Fin 1)),
              (''recognizer_result'', JStr ''denylist''),
              (''text'', JStr ''CodeAlpha'')]]"
    by code_simp
  note floor = findDenylistEntities_leftmost_matches
    [where H = refHost and sourceText = ?text and body = ?body, THEN conjunct2, rule_format]
  have "anonymizeEntities refHost ?body (JArr [])
      = Entities (findDenylistEntities refHost (JStr ?text)
          (buildTermSet refHost (optProp ?body ''denylist'')))"
    by (rule floor) (intro conjI source nonblank short)
  then show ?thesis by (simp only: found)
qed

text \<open>
  C2: the scanner does not emit the case-insensitive matches of the term in the source
  text when lower-casing changes the length of the text. The offsets it emits are those
  of the match in \<^verbatim>\<open>sourceText.toLowerCase()\<close>, and it applies them to \<^verbatim>\<open>sourceText\<close> as they
  are. For the source text U+0130 followed by \<^verbatim>\<open>" CodeAlpha"\<close> and the deny term
  \<^verbatim>\<open>codealpha\<close>, the lower-cased text is one code unit longer than the source, the match is
  found there at \<open>3\<close>, and the entity emitted has start \<open>3\<close>, end \<open>12\<close> (one past the end of
  the source text) and text \<^verbatim>\<open>"odeAlpha"\<close>, which does not lower-case to the term; the
  term's match in the source text is at \<open>2\<close> to \<open>11\<close>. With empty detection output the
  pipeline returns this entity.
\<close>

theorem findDenylistEntities_offsets_of_lowered_text:
  "findDenylistEntities specialCasingHost (JStr (capitalDotI # '' CodeAlpha'')) [''codealpha'']
     = [JObj [(''entity_type'', JStr ''DENYLIST_TERM''),
              (''start'', JNum (Fin 3)),
              (''end'', JNum (Fin 12)),
              (''score'', JNum (Fin 1)),
              (''recognizer_result'', JStr ''denylist''),
              (''text'', JStr ''odeAlpha'')]]
   \<and> anonymizeEntities specialCasingHost
       (JObj [(''text'', JStr (capitalDotI # '' CodeAlpha'')), (''denylist'', JStr ''codealpha'')])
       (JArr [])
     = Entities
         [JObj [(''entity_type'', JStr ''DENYLIST_TERM''),
                (''start'', JNum (Fin 3)),
                (''end'', JNum (Fin 12)),
                (''score'', JNum (Fin 1)),
                (''recognizer_result'', JStr ''denylist''),
                (''text'', JStr ''odeAlpha'')]]
   \<and> length (capitalDotI # '' CodeAlpha'') = 11
   \<and> toLowerCase specialCasingHost (capitalDotI # '' CodeAlpha'')
     = CHR ''i'' # combiningDot # '' codealpha''
   \<and> toLowerCase specialCasingHost ''odeAlpha'' \<noteq> ''codealpha''
   \<and> slice (capitalDotI # '' CodeAlpha'') 2 11 = ''CodeAlpha''
   \<and> toLowerCase specialCasingHost (slice (capitalDotI # '' CodeAlpha'') 2 11) = ''codealpha''"
  by code_simp

section \<open>Errors: the source text and malformed records\<close>

lemma getProp_object:
  "truthy entity \<Longrightarrow> typeof entity = ''object'' \<Longrightarrow> getProp entity k = Some (optProp entity k)"
  by (cases entity) simp_all

lemma entityTypeKeep_returns: "entityTypeKeep H types entity \<noteq> None"
  by (cases "truthy entity \<and> typeof entity = ''object''")
     (auto simp: entityTypeKeep_def getProp_object split: option.splits)

lemma thresholdKeep_returns: "thresholdKeep H t entity \<noteq> None"
  by (cases "truthy entity \<and> typeof entity = ''object''")
     (auto simp: thresholdKeep_def getProp_object)

lemma shouldIncludeEntity_returns:
  "shouldIncludeEntity H entity (JStr s) allow deny \<noteq> None"
  by (cases "truthy entity \<and> typeof entity = ''object''")
     (auto simp: shouldIncludeEntity_def getProp_object Let_def split: jsval.splits jsnum.splits)

lemma filterM_returns:
  "(\<And>x. x \<in> set xs \<Longrightarrow> p x \<noteq> None) \<Longrightarrow> \<exists>ys. filterM p xs = Some ys"
proof (induction xs)
  case Nil
  then show ?case by simp
next
  case (Cons x xs)
  from Cons.prems [of x] obtain keep where "p x = Some keep" by auto
  moreover from Cons.IH Cons.prems obtain rest where "filterM p xs = Some rest" by auto
  ultimately show ?case by simp
qed

lemma keyOf_defined_iff:
  "validOffsets e \<Longrightarrow> keyOf H e \<noteq> None \<longleftrightarrow> jsToString H (optProp e ''entity_type'') \<noteq> None"
  by (auto simp: validOffsets_def keyOf_def entityKey_def split: jsval.splits jsnum.splits bind_splits)

lemma keyOf_denylistEntity_defined: "keyOf H (denylistEntity s p q) \<noteq> None"
  by (simp add: keyOf_def denylistEntity_def lookup_def entityKey_def)

lemma scanTerm_shape:
  assumes "e \<in> set (scanTerm s L t i)"
  shows "\<exists>p. e = denylistEntity s p (p + length t)"
proof (cases "t = []")
  case True
  then have "scanTerm s L t i = []" by (subst scanTerm.simps) simp
  with assms show ?thesis by simp
next
  case False
  from scanTerm_leftmost [OF False, of s L i] assms show ?thesis by auto
qed

lemma findDenylistEntities_shape:
  assumes "e \<in> set (findDenylistEntities H src deny)"
  shows "\<exists>s p q. e = denylistEntity s p q"
proof (cases src)
  case (JStr s)
  with assms obtain t where "e \<in> set (scanTerm s (toLowerCase H s) t 0)"
    by (auto simp: findDenylistEntities_def split: if_splits)
  from scanTerm_shape [OF this] show ?thesis by blast
qed (use assms in \<open>simp_all add: findDenylistEntities_def\<close>)

lemma shouldIncludeEntity_malformed:
  assumes "\<not> validOffsets entity"
  shows "shouldIncludeEntity H entity (JStr s) allow deny = Some False"
proof (cases "truthy entity \<and> typeof entity = ''object''")
  case False
  then show ?thesis by (auto simp: shouldIncludeEntity_def)
next
  case True
  with assms show ?thesis
    by (cases "optProp entity ''start''"; cases "optProp entity ''end''")
       (auto simp: shouldIncludeEntity_def validOffsets_def getProp_object split: jsnum.splits)
qed

lemma mergeEntities_returns:
  assumes "\<And>e. e \<in> set (primary @ supplemental) \<Longrightarrow> validOffsets e \<Longrightarrow> keyOf H e \<noteq> None"
  shows "\<exists>merged. mergeEntities H primary supplemental = Some merged"
proof -
  have "pushAll H ({}, []) primary \<noteq> None"
    by (rule pushAll_total) (use assms in auto)
  then obtain mid where mid: "pushAll H ({}, []) primary = Some mid" by blast
  have "pushAll H mid supplemental \<noteq> None"
    by (rule pushAll_total) (use assms in auto)
  with mid show ?thesis by (auto simp: mergeEntities_def)
qed

lemma shouldIncludeEntity_kept_valid:
  "shouldIncludeEntity H entity (JStr s) allow deny = Some True \<Longrightarrow> validOffsets entity"
  using shouldIncludeEntity_malformed [of entity H s allow deny] by auto

lemma anonymizeEntities_string:
  assumes "optProp body ''text'' = JStr t" "trim t \<noteq> []"
  shows "anonymizeEntities H body analyzerResults =
     (case filterStages H
         (if length (parseRequestedEntityTypes H (optProp body ''entityTypes'')) > 0
          then Some (newSet (parseRequestedEntityTypes H (optProp body ''entityTypes'')))
          else None)
         (acceptanceThreshold H (optProp body ''threshold''))
         (buildTermSet H (optProp body ''allowlist''))
         (buildTermSet H (optProp body ''denylist''))
         (JStr t) analyzerResults of
        None \<Rightarrow> ServerError ''Unexpected error while contacting Presidio services.''
      | Some filteredAnalyzerResults \<Rightarrow> Entities filteredAnalyzerResults)"
  unfolding anonymizeEntities_def Let_def assms(1) using assms(2) by simp

lemma filterStages_composed:
  assumes s1: "filterM (entityTypeKeep H types) raw = Some s1"
    and s2: "filterM (thresholdKeep H threshold) s1 = Some s2"
    and s3: "filterM (\<lambda>entity. shouldIncludeEntity H entity (JStr t) allow deny) s2 = Some s3"
    and out: "mergeEntities H s3 (findDenylistEntities H (JStr t) deny) = Some out"
    and raw: "raw = (case analyzerResults of JArr xs \<Rightarrow> xs | _ \<Rightarrow> [])"
  shows "filterStages H types threshold allow deny (JStr t) analyzerResults = Some out"
proof -
  have first: "(case analyzerResults of
        JArr results \<Rightarrow> filterM (entityTypeKeep H types) results
      | _ \<Rightarrow> Some []) = Some s1"
    using s1 by (cases analyzerResults) (simp_all add: raw)
  show ?thesis
    unfolding filterStages_def first by (simp add: s2 s3 out)
qed

lemma filterStages_returns:
  assumes printable: "\<And>e. e \<in> set (case analyzerResults of JArr xs \<Rightarrow> xs | _ \<Rightarrow> [])
      \<Longrightarrow> validOffsets e \<Longrightarrow> keyOf H e \<noteq> None"
  shows "\<exists>out. filterStages H types threshold allow deny (JStr t) analyzerResults = Some out
      \<and> (\<forall>e\<in>set out. validOffsets e)"
proof -
  define raw where "raw = (case analyzerResults of JArr xs \<Rightarrow> xs | _ \<Rightarrow> [])"
  have "\<exists>ys. filterM (entityTypeKeep H types) raw = Some ys"
    by (rule filterM_returns) (rule entityTypeKeep_returns)
  then obtain s1 where s1: "filterM (entityTypeKeep H types) raw = Some s1" ..
  have "\<exists>ys. filterM (thresholdKeep H threshold) s1 = Some ys"
    by (rule filterM_returns) (rule thresholdKeep_returns)
  then obtain s2 where s2: "filterM (thresholdKeep H threshold) s1 = Some s2" ..
  have "\<exists>ys. filterM (\<lambda>entity. shouldIncludeEntity H entity (JStr t) allow deny) s2 = Some ys"
    by (rule filterM_returns) (rule shouldIncludeEntity_returns)
  then obtain s3
    where s3: "filterM (\<lambda>entity. shouldIncludeEntity H entity (JStr t) allow deny) s2 = Some s3" ..
  have sub: "set s3 \<subseteq> set raw"
    using filterM_subset [OF s1] filterM_subset [OF s2] filterM_subset [OF s3]
    by (rule_tac subset_trans [OF _ subset_trans])
  let ?found = "findDenylistEntities H (JStr t) deny"
  have keys: "keyOf H e \<noteq> None" if e: "e \<in> set (s3 @ ?found)" "validOffsets e" for e
  proof (cases "e \<in> set s3")
    case True
    with sub have "e \<in> set raw" ..
    then have "e \<in> set (case analyzerResults of JArr xs \<Rightarrow> xs | _ \<Rightarrow> [])"
      unfolding raw_def .
    from printable [OF this e(2)] show ?thesis .
  next
    case False
    with e(1) have "e \<in> set ?found" by simp
    from findDenylistEntities_shape [OF this] obtain s p q where "e = denylistEntity s p q"
      by blast
    then show ?thesis by (simp add: keyOf_denylistEntity_defined)
  qed
  from mergeEntities_returns [of s3 ?found H, OF keys]
  obtain out where out: "mergeEntities H s3 ?found = Some out" by blast
  have valid: "\<forall>e\<in>set out. validOffsets e"
    unfolding mergeEntities_survivors(1) [OF out] using survivors_valid by blast
  from filterStages_composed [OF s1 s2 s3 out raw_def] valid show ?thesis by blast
qed

text \<open>
  C8: a source text that is not a string is answered to the caller as an invalid-input
  error (status 400), before any stage runs. For a string source text no stage predicate
  throws on any value, a malformed record (not an object, \<^verbatim>\<open>start\<close> or \<^verbatim>\<open>end\<close> missing or
  not a finite number, or \<open>start \<ge> end\<close>) is rejected by the term policy filter and
  skipped by the merger, and the pipeline returns an entity list without any malformed
  record, whatever malformed records the analyzer's output holds.

  The records with valid offsets are taken to have an \<^verbatim>\<open>entity_type\<close> that a template
  literal can print (a string, a number, a boolean or none, as the data model has it): for
  an object with a key \<^verbatim>\<open>toString\<close> the key's template literal throws in the merger, and
  the handler answers with status 500.
\<close>

theorem anonymizeEntities_error_contract:
  "(typeof (optProp body ''text'') \<noteq> ''string''
      \<longrightarrow> anonymizeEntities H body analyzerResults
            = BadRequest ''Request body must include non-empty text.'')
   \<and> (\<forall>entity. entityTypeKeep H types entity \<noteq> None
          \<and> thresholdKeep H threshold entity \<noteq> None
          \<and> shouldIncludeEntity H entity (JStr sourceText) allow deny \<noteq> None)
   \<and> (\<forall>entity. \<not> validOffsets entity
          \<longrightarrow> shouldIncludeEntity H entity (JStr sourceText) allow deny = Some False
            \<and> pushIfUnique H state entity = Some state)
   \<and> ((\<exists>t. optProp body ''text'' = JStr t \<and> trim t \<noteq> [])
        \<and> (\<forall>raw. analyzerResults = JArr raw
              \<longrightarrow> (\<forall>e\<in>set raw. validOffsets e
                    \<longrightarrow> jsToString H (optProp e ''entity_type'') \<noteq> None))
      \<longrightarrow> (\<exists>out. anonymizeEntities H body analyzerResults = Entities out
            \<and> (\<forall>e\<in>set out. validOffsets e)
            \<and> (\<forall>raw. analyzerResults = JArr raw
                  \<longrightarrow> (\<forall>e\<in>set raw. \<not> validOffsets e \<longrightarrow> e \<notin> set out))))"
proof -
  have nonstring: "typeof (optProp body ''text'') \<noteq> ''string''
      \<longrightarrow> anonymizeEntities H body analyzerResults
            = BadRequest ''Request body must include non-empty text.''"
    by (cases "optProp body ''text''") (simp_all add: anonymizeEntities_def Let_def)
  have stages: "\<forall>entity. entityTypeKeep H types entity \<noteq> None
          \<and> thresholdKeep H threshold entity \<noteq> None
          \<and> shouldIncludeEntity H entity (JStr sourceText) allow deny \<noteq> None"
    by (intro allI conjI entityTypeKeep_returns thresholdKeep_returns shouldIncludeEntity_returns)
  have dropped: "\<forall>entity. \<not> validOffsets entity
          \<longrightarrow> shouldIncludeEntity H entity (JStr sourceText) allow deny = Some False
            \<and> pushIfUnique H state entity = Some state"
    by (simp add: shouldIncludeEntity_malformed pushIfUnique_eq)
  have pipeline: "\<exists>out. anonymizeEntities H body analyzerResults = Entities out
            \<and> (\<forall>e\<in>set out. validOffsets e)
            \<and> (\<forall>raw. analyzerResults = JArr raw
                  \<longrightarrow> (\<forall>e\<in>set raw. \<not> validOffsets e \<longrightarrow> e \<notin> set out))"
    if given: "(\<exists>t. optProp body ''text'' = JStr t \<and> trim t \<noteq> [])
        \<and> (\<forall>raw. analyzerResults = JArr raw
              \<longrightarrow> (\<forall>e\<in>set raw. validOffsets e
                    \<longrightarrow> jsToString H (optProp e ''entity_type'') \<noteq> None))"
  proof -
    from given obtain t where t: "optProp body ''text'' = JStr t" "trim t \<noteq> []" by blast
    have printable: "keyOf H e \<noteq> None"
      if e: "e \<in> set (case analyzerResults of JArr xs \<Rightarrow> xs | _ \<Rightarrow> [])" "validOffsets e" for e
    proof -
      from e(1) obtain raw where raw: "analyzerResults = JArr raw" "e \<in> set raw"
        by (cases analyzerResults) simp_all
      with given e(2) have "jsToString H (optProp e ''entity_type'') \<noteq> None" by blast
      with keyOf_defined_iff [OF e(2)] show ?thesis by blast
    qed
    let ?types = "if length (parseRequestedEntityTypes H (optProp body ''entityTypes'')) > 0
          then Some (newSet (parseRequestedEntityTypes H (optProp body ''entityTypes'')))
          else None"
    let ?threshold = "acceptanceThreshold H (optProp body ''threshold'')"
    let ?allow = "buildTermSet H (optProp body ''allowlist'')"
    let ?deny = "buildTermSet H (optProp body ''denylist'')"
    have "\<exists>out. filterStages H ?types ?threshold ?allow ?deny (JStr t) analyzerResults = Some out
        \<and> (\<forall>e\<in>set out. validOffsets e)"
      by (rule filterStages_returns) (rule printable)
    then obtain out
      where out: "filterStages H ?types ?threshold ?allow ?deny (JStr t) analyzerResults = Some out"
        and valid: "\<forall>e\<in>set out. validOffsets e"
      by (elim exE conjE)
    have "anonymizeEntities H body analyzerResults = Entities out"
      unfolding anonymizeEntities_string [OF t] out by (simp only: option.case)
    moreover from valid
    have "\<forall>raw. analyzerResults = JArr raw
        \<longrightarrow> (\<forall>e\<in>set raw. \<not> validOffsets e \<longrightarrow> e \<notin> set out)"
      by blast
    ultimately show ?thesis using valid by (intro exI [of _ out] conjI)
  qed
  show ?thesis
    by (intro conjI impI nonstring stages dropped) (rule pipeline)
qed

theorem anonymizeEntities_error_contract_witness:
  "anonymizeEntities refHost (JObj [(''text'', JNum (Fin 42))]) (JArr [])
     = BadRequest ''Request body must include non-empty text.''
   \<and> (\<exists>out. anonymizeEntities refHost
          (JObj [(''text'', JStr ''Call Jan Jansen at jan@example.com'')])
          (JArr [JNull, JNum (Fin 3), JStr ''PERSON'',
                 JObj [(''entity_type'', JStr ''PERSON''), (''end'', JNum (Fin 16))],
                 JObj [(''entity_type'', JStr ''PERSON''), (''start'', JStr ''5''),
                       (''end'', JNum (Fin 16))],
                 JObj [(''entity_type'', JStr ''PERSON''), (''start'', JNum (Fin 16)),
                       (''end'', JNum (Fin 5))],
                 JObj [(''entity_type'', JStr ''PERSON''), (''start'', JNum (Fin 5)),
                       (''end'', JNum (Fin 16)), (''score'', JNum (Fin (9 / 10)))]])
        = Entities out \<and> (\<forall>e\<in>set out. validOffsets e))"
proof -
  let ?bad = "JObj [(''text'', JNum (Fin 42))]"
  let ?body = "JObj [(''text'', JStr ''Call Jan Jansen at jan@example.com'')]"
  let ?raw = "[JNull, JNum (Fin 3), JStr ''PERSON'',
                 JObj [(''entity_type'', JStr ''PERSON''), (''end'', JNum (Fin 16))],
                 JObj [(''entity_type'', JStr ''PERSON''), (''start'', JStr ''5''),
                       (''end'', JNum (Fin 16))],
                 JObj [(''entity_type'', JStr ''PERSON''), (''start'', JNum (Fin 16)),
                       (''end'', JNum (Fin 5))],
                 JObj [(''entity_type'', JStr ''PERSON''), (''start'', JNum (Fin 5)),
                       (''end'', JNum (Fin 16)), (''score'', JNum (Fin (9 / 10)))]]"
  have nonstring: "typeof (optProp ?bad ''text'') \<noteq> ''string''"
    by (simp add: lookup_def)
  have source: "\<exists>t. optProp ?body ''text'' = JStr t \<and> trim t \<noteq> []"
    by (rule exI [of _ "''Call Jan Jansen at jan@example.com''"]) code_simp
  have "\<forall>e\<in>set ?raw. validOffsets e \<longrightarrow> jsToString refHost (optProp e ''entity_type'') \<noteq> None"
    by code_simp
  then have printable: "\<forall>raw. JArr ?raw = JArr raw
      \<longrightarrow> (\<forall>e\<in>set raw. validOffsets e \<longrightarrow> jsToString refHost (optProp e ''entity_type'') \<noteq> None)"
  proof (intro allI impI)
    fix raw assume "JArr ?raw = JArr raw"
    then have "raw = ?raw" by (simp only: jsval.inject)
    with \<open>\<forall>e\<in>set ?raw. validOffsets e \<longrightarrow> jsToString refHost (optProp e ''entity_type'') \<noteq> None\<close>
    show "\<forall>e\<in>set raw. validOffsets e \<longrightarrow> jsToString refHost (optProp e ''entity_type'') \<noteq> None"
      by (simp only:)
  qed
  note first = anonymizeEntities_error_contract [of ?bad refHost "JArr []",
      THEN conjunct1, rule_format, OF nonstring]
  note contract = anonymizeEntities_error_contract [of ?body refHost "JArr ?raw",
      THEN conjunct2, THEN conjunct2, THEN conjunct2, rule_format, OF conjI, OF source printable]
  then have "\<exists>out. anonymizeEntities refHost ?body (JArr ?raw) = Entities out
      \<and> (\<forall>e\<in>set out. validOffsets e)"
    by (elim exE conjE) (intro exI conjI)
  with first show ?thesis by (intro conjI)
qed

section \<open>The markup annotator: the order of the replacement passes\<close>

lemma patternLiteral_escapeRegExp: "patternLiteral (escapeRegExp s) = s"
proof (induction s rule: induct_list012)
  case 1
  then show ?case by (simp add: escapeRegExp_def)
next
  case (2 c)
  then show ?case by (simp add: escapeRegExp_def)
next
  case (3 c d cs)
  have step: "patternLiteral (escapeRegExp (x # xs)) = x # patternLiteral (escapeRegExp xs)"
    if "xs \<noteq> []" for x xs
  proof -
    from that have "escapeRegExp xs \<noteq> []"
      by (cases xs) (auto simp: escapeRegExp_def)
    then obtain y ys where "escapeRegExp xs = y # ys"
      by (cases "escapeRegExp xs") auto
    moreover have "CHR 0x5C \<in> set regexSpecials" by (simp add: regexSpecials_def)
    ultimately show ?thesis by (auto simp: escapeRegExp_def)
  qed
  from step [of "d # cs" c] "3.IH"(2) show ?case by simp
qed

lemma replaceAllMatches_escaped:
  "replaceAllMatches subject (escapeRegExp literal) replacement
     = replaceFrom subject literal replacement 0"
  by (simp add: replaceAllMatches_def patternLiteral_escapeRegExp)

text \<open>
  The copy in \<^verbatim>\<open>utils/anonymizerUtils.js\<close> does what C6 says: the replacement passes run
  over a rearrangement of the entities in which no entity comes before one with a longer
  found text, and the same input is redacted as one unit.
\<close>

lemma applyAnonymizationToHtml_longest_first:
  assumes "es \<noteq> []"
  shows "\<exists>sortedEntities.
      applyAnonymizationToHtml H (JStr markup) (JStr plainText) items (JArr es) displayMap
        = map_option (\<lambda>result. case result of JStr s \<Rightarrow> s | _ \<Rightarrow> [])
            (redactAll H displayMap sortedEntities (JStr markup))
    \<and> mset sortedEntities = mset (map (attachFoundText plainText) es)
    \<and> (\<forall>i j. i < j \<and> j < length sortedEntities
          \<longrightarrow> foundTextLength (sortedEntities ! j) \<le> foundTextLength (sortedEntities ! i))"
proof -
  let ?sorted = "sort_key (\<lambda>e. - int (foundTextLength e)) (map (attachFoundText plainText) es)"
  have "sorted (map (\<lambda>e. - int (foundTextLength e)) ?sorted)"
    by (rule sorted_sort_key)
  then have order: "\<forall>i j. i < j \<and> j < length ?sorted
      \<longrightarrow> foundTextLength (?sorted ! j) \<le> foundTextLength (?sorted ! i)"
    by (auto simp: sorted_iff_nth_mono_less)
  from assms have "applyAnonymizationToHtml H (JStr markup) (JStr plainText) items (JArr es) displayMap
      = map_option (\<lambda>result. case result of JStr s \<Rightarrow> s | _ \<Rightarrow> [])
          (redactAll H displayMap ?sorted (JStr markup))"
    by (simp add: applyAnonymizationToHtml_def Let_def)
  with order show ?thesis
    by (intro exI [of _ ?sorted]) simp
qed

lemma applyAnonymizationToHtml_ann_smith:
  "applyAnonymizationToHtml refHost
     (JStr ''<p>Ann Smith met Ann</p>'') (JStr ''Ann Smith met Ann'') JNull
     (JArr [JObj [(''entity_type'', JStr ''PERSON''), (''start'', JNum (Fin 0)),
                  (''end'', JNum (Fin 9))],
            JObj [(''entity_type'', JStr ''PERSON''), (''start'', JNum (Fin 14)),
                  (''end'', JNum (Fin 17))]])
     NoDisplayMap
   = Some ''<p>&lt;PERSON&gt; met &lt;PERSON&gt;</p>''"
  by code_simp

text \<open>
  C6 says that the annotator handles the entities in descending order of the length of
  their found text, so that with found texts \<^verbatim>\<open>Ann\<close> and \<^verbatim>\<open>Ann Smith\<close> every
  \<^verbatim>\<open>Ann Smith\<close> is redacted as one unit and never left as \<^verbatim>\<open>&lt;PERSON&gt; Smith\<close>.
  The copy in \<^verbatim>\<open>src/unnamed/part_000\<close> does not sort: it runs through the array from the
  last entity to the first. With the \<^verbatim>\<open>Ann Smith\<close> entity before the \<^verbatim>\<open>Ann\<close> entity in
  the array it replaces \<^verbatim>\<open>Ann\<close> first and leaves \<^verbatim>\<open>&lt;PERSON&gt; Smith\<close>.
\<close>

theorem applyAnonymizationToHtml_part_000_shorter_first:
  "applyAnonymizationToHtml_part_000 refHost
     (JStr ''<p>Ann Smith met Ann</p>'') (JStr ''Ann Smith met Ann'') JNull
     (JArr [JObj [(''entity_type'', JStr ''PERSON''), (''start'', JNum (Fin 0)),
                  (''end'', JNum (Fin 9))],
            JObj [(''entity_type'', JStr ''PERSON''), (''start'', JNum (Fin 14)),
                  (''end'', JNum (Fin 17))]])
     NoDisplayMap
   = Some ''<p>&lt;PERSON&gt; Smith met &lt;PERSON&gt;</p>''"
  by code_simp

text \<open>
  C10 says that the two copies of \<^verbatim>\<open>applyAnonymizationToHtml\<close> return the same string for
  every input. They do not: where a shorter found text comes later in the array than a
  longer one that contains it, the second copy replaces the shorter one first; and where
  \<^verbatim>\<open>entities\<close> is \<^verbatim>\<open>null\<close>, the first copy returns the markup and the second throws.
\<close>

theorem applyAnonymizationToHtml_copies_differ:
  "applyAnonymizationToHtml refHost
     (JStr ''<p>Call Jan Jansen, Jan</p>'') (JStr ''Call Jan Jansen, Jan'') JNull
     (JArr [JObj [(''entity_type'', JStr ''PERSON''), (''start'', JNum (Fin 5)),
                  (''end'', JNum (Fin 15))],
            JObj [(''entity_type'', JStr ''PERSON''), (''start'', JNum (Fin 17)),
                  (''end'', JNum (Fin 20))]])
     NoDisplayMap
   = Some ''<p>Call &lt;PERSON&gt;, &lt;PERSON&gt;</p>''
   \<and> applyAnonymizationToHtml_part_000 refHost
     (JStr ''<p>Call Jan Jansen, Jan</p>'') (JStr ''Call Jan Jansen, Jan'') JNull
     (JArr [JObj [(''entity_type'', JStr ''PERSON''), (''start'', JNum (Fin 5)),
                  (''end'', JNum (Fin 15))],
            JObj [(''entity_type'', JStr ''PERSON''), (''start'', JNum (Fin 17)),
                  (''end'', JNum (Fin 20))]])
     NoDisplayMap
   = Some ''<p>Call &lt;PERSON&gt; &lt;PERSON&gt;sen, &lt;PERSON&gt;</p>''
   \<and> applyAnonymizationToHtml refHost (JStr ''<p>Jan</p>'') (JStr ''Jan'') JNull JNull NoDisplayMap
   = Some ''<p>Jan</p>''
   \<and> applyAnonymizationToHtml_part_000 refHost (JStr ''<p>Jan</p>'') (JStr ''Jan'') JNull JNull
       NoDisplayMap
   = None"
  by code_simp

section \<open>The result signature: stable under key order and rounding\<close>

lemma toFixed6_rounded:
  "\<bar>q\<bar> < 10 ^ 21 \<Longrightarrow> toFixed6 q = roundedToSixDecimals q"
  by (simp add: toFixed6_def roundedToSixDecimals_def round_def)

lemma sameUpToOrder_JStr:
  "sameUpToOrder a b \<Longrightarrow> (\<exists>s. a = JStr s) \<or> (\<exists>s. b = JStr s) \<Longrightarrow> a = b"
  by (induction rule: sameUpToOrder.induct) auto

lemma sameUpToOrder_JUndefined:
  "sameUpToOrder a b \<Longrightarrow> a = JUndefined \<or> b = JUndefined \<Longrightarrow> a = b"
  by (induction rule: sameUpToOrder.induct) auto

lemma sameUpToOrder_JArr:
  "sameUpToOrder a b \<Longrightarrow> (\<exists>xs. a = JArr xs) \<longleftrightarrow> (\<exists>ys. b = JArr ys)"
  by (induction rule: sameUpToOrder.induct) auto

lemma sameUpToOrder_object:
  "sameUpToOrder a b \<Longrightarrow>
     (\<not> truthy a \<or> typeof a \<noteq> ''object'') \<longleftrightarrow> (\<not> truthy b \<or> typeof b \<noteq> ''object'')"
  by (induction rule: sameUpToOrder.induct) auto

lemma sameUpToOrder_optProp:
  "sameUpToOrder a b \<Longrightarrow> sameUpToOrder (optProp a k) (optProp b k)"
proof (induction rule: sameUpToOrder.induct)
  case (keys kvs kvs')
  show ?case
  proof (cases "k \<in> set (map fst kvs)")
    case True
    with keys.hyps(4) show ?thesis by simp
  next
    case False
    with keys.hyps(3) have "map_of kvs k = None" "map_of kvs' k = None"
      by (simp_all add: map_of_eq_None_iff)
    then show ?thesis by (simp add: lookup_def sameUpToOrder.same)
  qed
qed (simp_all add: sameUpToOrder.same)

lemma sorted_keys_unique:
  assumes "distinct (xs :: string list)" "distinct ys" "set xs = set ys"
  shows "sort xs = sort ys"
  by (rule sorted_distinct_set_unique) (use assms in simp_all)

lemma stableStringify_sameUpToOrder:
  "sameUpToOrder a b \<Longrightarrow> stableStringify H a = stableStringify H b"
proof (induction rule: sameUpToOrder.induct)
  case (same v)
  show ?case by simp
next
  case (rounded p q)
  then show ?case by (simp add: toFixed6_rounded)
next
  case (entries xs ys)
  then have "map (\<lambda>entry. stableStringify H entry) xs = map (\<lambda>entry. stableStringify H entry) ys"
    by (induction rule: list_all2_induct) simp_all
  then show ?case by simp
next
  case (keys kvs kvs')
  have order: "sort (map fst kvs) = sort (map fst kvs')"
    by (rule sorted_keys_unique) (rule keys.hyps)+
  have "map (\<lambda>key. jsonQuote key @ '':'' @ stableStringify H (lookup kvs key)) (sort (map fst kvs))
      = map (\<lambda>key. jsonQuote key @ '':'' @ stableStringify H (lookup kvs' key)) (sort (map fst kvs))"
    by (rule map_cong) (simp_all add: keys.IH)
  then have parts: "map (\<lambda>key. jsonQuote key @ '':'' @ stableStringify H (lookup kvs key))
        (sort (map fst kvs))
      = map (\<lambda>key. jsonQuote key @ '':'' @ stableStringify H (lookup kvs' key))
        (sort (map fst kvs'))"
    by (simp only: order)
  show ?case
    unfolding stableStringify.simps parts ..
qed

lemma field_same:
  assumes "sameUpToOrder p q"
  shows "sameUpToOrder (field p k d) (field q k d)"
proof -
  note read = sameUpToOrder_optProp [OF assms, of k]
  show ?thesis
  proof (cases "optProp p k = JUndefined \<or> optProp q k = JUndefined")
    case True
    with sameUpToOrder_JUndefined [OF read] have "optProp p k = JUndefined" "optProp q k = JUndefined"
      by auto
    then show ?thesis by (simp add: field_def sameUpToOrder.same)
  next
    case False
    then have "field p k d = optProp p k" "field q k d = optProp q k"
      by (auto simp: field_def split: jsval.splits)
    with read show ?thesis by simp
  qed
qed

lemma threshold_same:
  assumes "sameUpToOrder a b"
  shows "(case normalizedThreshold H a of Fin q \<Rightarrow> JNum (Fin (toFixed6 q)) | _ \<Rightarrow> d)
       = (case normalizedThreshold H b of Fin q \<Rightarrow> JNum (Fin (toFixed6 q)) | _ \<Rightarrow> d)"
  using assms
  by (cases rule: sameUpToOrder.cases) (simp_all add: normalizedThreshold_def toFixed6_rounded)

lemma typeCode_same:
  assumes "sameUpToOrder x y"
  shows "(case x of JStr s \<Rightarrow> f s | _ \<Rightarrow> c) = (case y of JStr s \<Rightarrow> f s | _ \<Rightarrow> c)"
  using assms by (cases rule: sameUpToOrder.cases) simp_all

lemma normalizedEntityTypes_same:
  assumes "sameUpToOrder a b"
  shows "normalizedEntityTypes H a = normalizedEntityTypes H b"
  using assms
proof (cases rule: sameUpToOrder.cases)
  case (entries xs ys)
  from entries(3)
  have "map (\<lambda>v. case v of JStr s \<Rightarrow> toUpperCase H (trim s) | _ \<Rightarrow> []) xs
      = map (\<lambda>v. case v of JStr s \<Rightarrow> toUpperCase H (trim s) | _ \<Rightarrow> []) ys"
    by (induction rule: list_all2_induct) (simp_all add: typeCode_same)
  with entries(1,2) show ?thesis by (simp add: normalizedEntityTypes_def)
qed (simp_all add: normalizedEntityTypes_def)

lemma arrayOrEmpty_same:
  assumes "sameUpToOrder a b"
  shows "sameUpToOrder (arrayOrEmpty a) (arrayOrEmpty b)"
  using assms
proof (cases rule: sameUpToOrder.cases)
  case (entries xs ys)
  with assms show ?thesis by (simp add: arrayOrEmpty_def)
qed (simp_all add: arrayOrEmpty_def sameUpToOrder.same)

lemma signaturePayload_same:
  assumes "sameUpToOrder p q"
  shows "sameUpToOrder (signaturePayload H p) (signaturePayload H q)"
  unfolding signaturePayload_def
proof (rule sameUpToOrder.keys)
  fix k
  let ?d = "JNum (Fin DEFAULT_ACCEPTANCE_THRESHOLD)"
  note t = threshold_same [OF field_same [OF assms, of "''threshold''" ?d],
      where H = H and d = ?d]
  note e = normalizedEntityTypes_same [OF field_same [OF assms, of "''entityTypes''" "JArr []"],
      where H = H]
  show "sameUpToOrder
     (lookup
       [(''sourceText'', field p ''sourceText'' (JStr [])),
        (''sourceHtml'', field p ''sourceHtml'' (JStr [])),
        (''resultText'', field p ''resultText'' (JStr [])),
        (''resultHtml'', field p ''resultHtml'' (JStr [])),
        (''nerModel'', field p ''nerModel'' (JStr [])),
        (''language'', field p ''language'' (JStr [])),
        (''threshold'',
           (case normalizedThreshold H (field p ''threshold'' ?d) of
              Fin q \<Rightarrow> JNum (Fin (toFixed6 q))
            | _ \<Rightarrow> ?d)),
        (''allowlist'', field p ''allowlist'' (JStr [])),
        (''denylist'', field p ''denylist'' (JStr [])),
        (''entityTypes'',
           JArr (map JStr (normalizedEntityTypes H (field p ''entityTypes'' (JArr []))))),
        (''entities'', arrayOrEmpty (field p ''entities'' (JArr []))),
        (''items'', arrayOrEmpty (field p ''items'' (JArr [])))] k)
     (lookup
       [(''sourceText'', field q ''sourceText'' (JStr [])),
        (''sourceHtml'', field q ''sourceHtml'' (JStr [])),
        (''resultText'', field q ''resultText'' (JStr [])),
        (''resultHtml'', field q ''resultHtml'' (JStr [])),
        (''nerModel'', field q ''nerModel'' (JStr [])),
        (''language'', field q ''language'' (JStr [])),
        (''threshold'',
           (case normalizedThreshold H (field q ''threshold'' ?d) of
              Fin q \<Rightarrow> JNum (Fin (toFixed6 q))
            | _ \<Rightarrow> ?d)),
        (''allowlist'', field q ''allowlist'' (JStr [])),
        (''denylist'', field q ''denylist'' (JStr [])),
        (''entityTypes'',
           JArr (map JStr (normalizedEntityTypes H (field q ''entityTypes'' (JArr []))))),
        (''entities'', arrayOrEmpty (field q ''entities'' (JArr []))),
        (''items'', arrayOrEmpty (field q ''items'' (JArr [])))] k)"
    unfolding t e
    by (simp add: lookup_def field_same [OF assms] arrayOrEmpty_same [OF field_same [OF assms]]
        sameUpToOrder.same)
qed simp_all

lemma buildResultSignature_same:
  assumes "sameUpToOrder p q"
  shows "buildResultSignature H p = buildResultSignature H q"
  using sameUpToOrder_object [OF assms]
    stableStringify_sameUpToOrder [OF signaturePayload_same [OF assms], of H]
  by (auto simp: buildResultSignature_def)

lemma normalizedEntityTypes_sorted:
  "\<exists>types. normalizedEntityTypes H (JArr values) = types \<and> sorted types \<and> distinct types
     \<and> set types = {toUpperCase H (trim s) |s. JStr s \<in> set values} - {[]}"
proof -
  have "set (filter (\<lambda>t. t \<noteq> [])
      (map (\<lambda>v. case v of JStr s \<Rightarrow> toUpperCase H (trim s) | _ \<Rightarrow> []) values))
    = {toUpperCase H (trim s) |s. JStr s \<in> set values} - {[]}"
    by (auto split: jsval.splits)
  then show ?thesis
    by (simp add: normalizedEntityTypes_def set_newSet distinct_newSet)
qed

section \<open>The result signature: what is rounded, what is null, and the threshold\<close>

lemma stableStringify_finite:
  "\<bar>r\<bar> < 10 ^ 21 \<Longrightarrow>
     stableStringify H (JNum (Fin r)) = numberToString H (Fin (roundedToSixDecimals r))"
  by (simp add: toFixed6_rounded)

lemma stableStringify_not_finite:
  "(\<forall>r. n \<noteq> Fin r) \<Longrightarrow> stableStringify H (JNum n) = ''null''"
  by (cases n) simp_all

lemma threshold_field:
  "optProp (signaturePayload H p) ''threshold''
     = (case normalizedThreshold H
               (field p ''threshold'' (JNum (Fin DEFAULT_ACCEPTANCE_THRESHOLD))) of
          Fin q \<Rightarrow> JNum (Fin (toFixed6 q))
        | _ \<Rightarrow> JNum (Fin DEFAULT_ACCEPTANCE_THRESHOLD))"
  by (simp add: signaturePayload_def lookup_def)

lemma threshold_not_finite_number:
  assumes "optProp p ''threshold'' = JNum n" "\<forall>r. n \<noteq> Fin r"
  shows "optProp (signaturePayload H p) ''threshold'' = JNum (Fin (1 / 2))"
  using assms
  by (cases n)
    (simp_all add: threshold_field field_def normalizedThreshold_def
      DEFAULT_ACCEPTANCE_THRESHOLD_def)

lemma threshold_not_finite_string:
  assumes "optProp p ''threshold'' = JStr s" "\<forall>r. parseFloat H s \<noteq> Fin r"
  shows "optProp (signaturePayload H p) ''threshold'' = JNum (Fin (1 / 2))"
  using assms
  by (cases "parseFloat H s")
    (simp_all add: threshold_field field_def normalizedThreshold_def
      DEFAULT_ACCEPTANCE_THRESHOLD_def)

lemma threshold_finite_number:
  assumes "optProp p ''threshold'' = JNum (Fin r)" "\<bar>r\<bar> < 10 ^ 21"
  shows "optProp (signaturePayload H p) ''threshold'' = JNum (Fin (roundedToSixDecimals r))"
  using assms
  by (simp add: threshold_field field_def normalizedThreshold_def toFixed6_rounded)

lemma threshold_finite_string:
  assumes "optProp p ''threshold'' = JStr s" "parseFloat H s = Fin r" "\<bar>r\<bar> < 10 ^ 21"
  shows "optProp (signaturePayload H p) ''threshold'' = JNum (Fin (roundedToSixDecimals r))"
  using assms
  by (simp add: threshold_field field_def normalizedThreshold_def toFixed6_rounded)

lemma toFixed6_default:
  "toFixed6 (1 / 2) = 1 / 2"
  by code_simp

lemma signaturePayload_threshold_default:
  assumes "\<forall>r. n \<noteq> Fin r"
  shows "signaturePayload H (JObj ((''threshold'', JNum n) # kvs))
       = signaturePayload H (JObj ((''threshold'', JNum (Fin (1 / 2))) # kvs))"
  using assms
  by (cases n)
    (simp_all add: signaturePayload_def field_def lookup_def normalizedThreshold_def
      DEFAULT_ACCEPTANCE_THRESHOLD_def toFixed6_default)

lemma buildResultSignature_threshold_default:
  assumes "\<forall>r. n \<noteq> Fin r"
  shows "buildResultSignature H (JObj ((''threshold'', JNum n) # kvs))
       = buildResultSignature H (JObj ((''threshold'', JNum (Fin (1 / 2))) # kvs))"
  by (simp add: buildResultSignature_def signaturePayload_threshold_default [OF assms])

lemma entityTypes_field:
  assumes "optProp p ''entityTypes'' = JArr entityTypes"
  shows "\<exists>types. optProp (signaturePayload H p) ''entityTypes'' = JArr (map JStr types)
     \<and> sorted types \<and> distinct types
     \<and> set types = {toUpperCase H (trim s) |s. JStr s \<in> set entityTypes} - {[]}"
proof -
  from assms have "field p ''entityTypes'' (JArr []) = JArr entityTypes"
    by (simp add: field_def)
  then have "optProp (signaturePayload H p) ''entityTypes''
      = JArr (map JStr (normalizedEntityTypes H (JArr entityTypes)))"
    by (simp add: signaturePayload_def lookup_def)
  with normalizedEntityTypes_sorted [of H entityTypes] show ?thesis by auto
qed

text \<open>
  C7, as stated: a number that is \<^verbatim>\<open>NaN\<close> or infinite is serialised as \<^verbatim>\<open>null\<close>. So it is by
  \<^verbatim>\<open>stableStringify\<close>, but not in the signature of a payload whose threshold is such a
  number: \<^verbatim>\<open>buildResultSignature\<close> puts the default \<open>0.5\<close> in its place first, and the
  signature is that of the payload with threshold \<open>0.5\<close>.
\<close>

theorem buildResultSignature_nan_threshold_counterexample:
  "stableStringify refHost (JNum NaN) = ''null''
   \<and> optProp (signaturePayload refHost (JObj [(''threshold'', JNum NaN)])) ''threshold''
     = JNum (Fin (1 / 2))
   \<and> stableStringify refHost
       (optProp (signaturePayload refHost (JObj [(''threshold'', JNum NaN)])) ''threshold'')
     = ''0.5''
   \<and> buildResultSignature refHost (JObj [(''threshold'', JNum NaN)])
     = buildResultSignature refHost (JObj [(''threshold'', JNum (Fin (1 / 2)))])
   \<and> buildResultSignature refHost (JObj [(''threshold'', JNum PosInf)])
     = buildResultSignature refHost (JObj [(''threshold'', JNum (Fin (1 / 2)))])"
  by code_simp

text \<open>
  C7: for every two payloads that differ only in the order of the keys of their objects,
  at any depth, or in finite numbers (below \<open>10\<^sup>2\<^sup>1\<close> in magnitude) that are equal after
  rounding to six decimal places, \<^verbatim>\<open>buildResultSignature\<close> returns the same string, and so
  does \<^verbatim>\<open>stableStringify\<close> for every two such values. A finite number is serialised as its
  rounding to six decimal places; a number that is \<^verbatim>\<open>NaN\<close> or infinite is serialised as
  \<^verbatim>\<open>null\<close> wherever \<^verbatim>\<open>stableStringify\<close> meets it, with one exception: the top-level
  threshold. A threshold that is a non-finite number, or a string that \<^verbatim>\<open>parseFloat\<close> does
  not read as a finite number, is replaced by the default \<open>0.5\<close> before it is serialised, so
  that such a payload has the signature of the payload with threshold \<open>0.5\<close>; a finite
  threshold, a number or a string read by \<^verbatim>\<open>parseFloat\<close>, is included rounded to six decimal
  places. The entity types included are the upper-cased trimmed strings of the list,
  without the empty one, without duplicates and sorted.
\<close>

theorem buildResultSignature_stable:
  "(sameUpToOrder p q \<longrightarrow> buildResultSignature H p = buildResultSignature H q)
   \<and> (sameUpToOrder v w \<longrightarrow> stableStringify H v = stableStringify H w)
   \<and> (\<forall>r. \<bar>r\<bar> < 10 ^ 21 \<longrightarrow>
         stableStringify H (JNum (Fin r)) = numberToString H (Fin (roundedToSixDecimals r)))
   \<and> (\<forall>n. (\<forall>r. n \<noteq> Fin r) \<longrightarrow> stableStringify H (JNum n) = ''null'')
   \<and> (\<forall>n. optProp p ''threshold'' = JNum n \<and> (\<forall>r. n \<noteq> Fin r) \<longrightarrow>
         optProp (signaturePayload H p) ''threshold'' = JNum (Fin (1 / 2)))
   \<and> (\<forall>s. optProp p ''threshold'' = JStr s \<and> (\<forall>r. parseFloat H s \<noteq> Fin r) \<longrightarrow>
         optProp (signaturePayload H p) ''threshold'' = JNum (Fin (1 / 2)))
   \<and> (\<forall>n kvs. (\<forall>r. n \<noteq> Fin r) \<longrightarrow>
         buildResultSignature H (JObj ((''threshold'', JNum n) # kvs))
           = buildResultSignature H (JObj ((''threshold'', JNum (Fin (1 / 2))) # kvs)))
   \<and> (\<forall>r. optProp p ''threshold'' = JNum (Fin r) \<and> \<bar>r\<bar> < 10 ^ 21 \<longrightarrow>
         optProp (signaturePayload H p) ''threshold'' = JNum (Fin (roundedToSixDecimals r)))
   \<and> (\<forall>s r. optProp p ''threshold'' = JStr s \<and> parseFloat H s = Fin r \<and> \<bar>r\<bar> < 10 ^ 21 \<longrightarrow>
         optProp (signaturePayload H p) ''threshold'' = JNum (Fin (roundedToSixDecimals r)))
   \<and> (\<forall>entityTypes. optProp p ''entityTypes'' = JArr entityTypes \<longrightarrow>
         (\<exists>types. optProp (signaturePayload H p) ''entityTypes'' = JArr (map JStr types)
            \<and> sorted types \<and> distinct types
            \<and> set types = {toUpperCase H (trim s) |s. JStr s \<in> set entityTypes} - {[]}))"
proof -
  have payloads: "sameUpToOrder p q \<longrightarrow> buildResultSignature H p = buildResultSignature H q"
    by (intro impI) (rule buildResultSignature_same)
  have nested: "sameUpToOrder v w \<longrightarrow> stableStringify H v = stableStringify H w"
    by (intro impI) (rule stableStringify_sameUpToOrder)
  have finite: "\<forall>r. \<bar>r\<bar> < 10 ^ 21 \<longrightarrow>
      stableStringify H (JNum (Fin r)) = numberToString H (Fin (roundedToSixDecimals r))"
    by (intro allI impI) (rule stableStringify_finite)
  have null: "\<forall>n. (\<forall>r. n \<noteq> Fin r) \<longrightarrow> stableStringify H (JNum n) = ''null''"
    by (intro allI impI) (rule stableStringify_not_finite)
  have number: "\<forall>n. optProp p ''threshold'' = JNum n \<and> (\<forall>r. n \<noteq> Fin r) \<longrightarrow>
      optProp (signaturePayload H p) ''threshold'' = JNum (Fin (1 / 2))"
    by (intro allI impI) (elim conjE, rule threshold_not_finite_number)
  have unread: "\<forall>s. optProp p ''threshold'' = JStr s \<and> (\<forall>r. parseFloat H s \<noteq> Fin r) \<longrightarrow>
      optProp (signaturePayload H p) ''threshold'' = JNum (Fin (1 / 2))"
    by (intro allI impI) (elim conjE, rule threshold_not_finite_string)
  have replaced: "\<forall>n kvs. (\<forall>r. n \<noteq> Fin r) \<longrightarrow>
      buildResultSignature H (JObj ((''threshold'', JNum n) # kvs))
        = buildResultSignature H (JObj ((''threshold'', JNum (Fin (1 / 2))) # kvs))"
    by (intro allI impI) (rule buildResultSignature_threshold_default)
  have kept: "\<forall>r. optProp p ''threshold'' = JNum (Fin r) \<and> \<bar>r\<bar> < 10 ^ 21 \<longrightarrow>
      optProp (signaturePayload H p) ''threshold'' = JNum (Fin (roundedToSixDecimals r))"
    by (intro allI impI) (elim conjE, rule threshold_finite_number)
  have parsed: "\<forall>s r. optProp p ''threshold'' = JStr s \<and> parseFloat H s = Fin r
        \<and> \<bar>r\<bar> < 10 ^ 21 \<longrightarrow>
      optProp (signaturePayload H p) ''threshold'' = JNum (Fin (roundedToSixDecimals r))"
    by (intro allI impI) (elim conjE, rule threshold_finite_string)
  have types: "\<forall>entityTypes. optProp p ''entityTypes'' = JArr entityTypes \<longrightarrow>
      (\<exists>types. optProp (signaturePayload H p) ''entityTypes'' = JArr (map JStr types)
         \<and> sorted types \<and> distinct types
         \<and> set types = {toUpperCase H (trim s) |s. JStr s \<in> set entityTypes} - {[]})"
    by (intro allI impI) (rule entityTypes_field)
  show ?thesis
    by (intro conjI payloads nested finite null number unread replaced kept parsed types)
qed

theorem buildResultSignature_stable_witness:
  "buildResultSignature refHost (JObj [(''a'', JNum (Fin 1)), (''b'', JNum (Fin 2))])
     = buildResultSignature refHost (JObj [(''b'', JNum (Fin 2)), (''a'', JNum (Fin 1))])
   \<and> buildResultSignature refHost (JObj [(''threshold'', JNum (Fin (30000001 / 100000000)))])
     = buildResultSignature refHost (JObj [(''threshold'', JNum (Fin (3 / 10)))])
   \<and> buildResultSignature refHost (JObj [(''threshold'', JNum (Fin (3 / 10)))])
     = ''{'' @ jsonQuote ''allowlist'' @ '':'' @ jsonQuote []
       @ '','' @ jsonQuote ''denylist'' @ '':'' @ jsonQuote []
       @ '','' @ jsonQuote ''entities'' @ '':'' @ ''[]''
       @ '','' @ jsonQuote ''entityTypes'' @ '':'' @ ''[]''
       @ '','' @ jsonQuote ''items'' @ '':'' @ ''[]''
       @ '','' @ jsonQuote ''language'' @ '':'' @ jsonQuote []
       @ '','' @ jsonQuote ''nerModel'' @ '':'' @ jsonQuote []
       @ '','' @ jsonQuote ''resultHtml'' @ '':'' @ jsonQuote []
       @ '','' @ jsonQuote ''resultText'' @ '':'' @ jsonQuote []
       @ '','' @ jsonQuote ''sourceHtml'' @ '':'' @ jsonQuote []
       @ '','' @ jsonQuote ''sourceText'' @ '':'' @ jsonQuote []
       @ '','' @ jsonQuote ''threshold'' @ '':'' @ ''0.3''
       @ ''}''
   \<and> stableStringify refHost
       (JArr [JObj [(''start'', JNum (Fin 1)), (''score'', JNum (Fin (8500001 / 10000000))),
                    (''end'', JNum (Fin 2))]])
     = stableStringify refHost
       (JArr [JObj [(''end'', JNum (Fin 2)), (''score'', JNum (Fin (17 / 20))),
                    (''start'', JNum (Fin 1))]])
   \<and> stableStringify refHost
       (JArr [JObj [(''end'', JNum (Fin 2)), (''score'', JNum (Fin (17 / 20))),
                    (''start'', JNum (Fin 1))]])
     = ''[{'' @ [CHR 0x22] @ ''end'' @ [CHR 0x22] @ '':2,'' @ [CHR 0x22] @ ''score'' @ [CHR 0x22]
         @ '':0.85,'' @ [CHR 0x22] @ ''start'' @ [CHR 0x22] @ '':1}]''
   \<and> stableStringify refHost (JNum (Fin (1234567 / 10000000))) = ''0.123457''
   \<and> stableStringify refHost (JNum NaN) = ''null''
   \<and> stableStringify refHost (JNum NegInf) = ''null''
   \<and> buildResultSignature refHost (JObj [(''threshold'', JNum NaN)])
     = buildResultSignature refHost (JObj [(''threshold'', JNum (Fin (1 / 2)))])
   \<and> optProp (signaturePayload refHost (JObj [(''threshold'', JStr ''high'')])) ''threshold''
     = JNum (Fin (1 / 2))
   \<and> optProp (signaturePayload refHost
       (JObj [(''entityTypes'',
          JArr [JStr '' person '', JStr ''EMAIL'', JStr ''Person'', JNum (Fin 3), JStr []])]))
       ''entityTypes''
     = JArr [JStr ''EMAIL'', JStr ''PERSON'']"
proof -
  let ?ab = "JObj [(''a'', JNum (Fin 1)), (''b'', JNum (Fin 2))]"
  let ?ba = "JObj [(''b'', JNum (Fin 2)), (''a'', JNum (Fin 1))]"
  let ?noisy = "JObj [(''threshold'', JNum (Fin (30000001 / 100000000)))]"
  let ?clean = "JObj [(''threshold'', JNum (Fin (3 / 10)))]"
  let ?found = "JArr [JObj [(''start'', JNum (Fin 1)), (''score'', JNum (Fin (8500001 / 10000000))),
      (''end'', JNum (Fin 2))]]"
  let ?stored = "JArr [JObj [(''end'', JNum (Fin 2)), (''score'', JNum (Fin (17 / 20))),
      (''start'', JNum (Fin 1))]]"
  have small: "\<bar>x\<bar> < 1 \<Longrightarrow> \<bar>x\<bar> < 10 ^ 21" for x :: rat
    by (rule less_le_trans [where y = 1]) simp_all
  have order: "sameUpToOrder ?ab ?ba"
    by (rule sameUpToOrder.keys) (auto simp: lookup_def intro: sameUpToOrder.same)
  have threshold: "sameUpToOrder (JNum (Fin (30000001 / 100000000))) (JNum (Fin (3 / 10)))"
  proof (rule sameUpToOrder.rounded)
    show "\<bar>30000001 / 100000000 :: rat\<bar> < 10 ^ 21" by (rule small) simp
    show "\<bar>3 / 10 :: rat\<bar> < 10 ^ 21" by (rule small) simp
    show "roundedToSixDecimals (30000001 / 100000000) = roundedToSixDecimals (3 / 10)"
      by code_simp
  qed
  have noise: "sameUpToOrder ?noisy ?clean"
    by (rule sameUpToOrder.keys) (auto simp: lookup_def intro: threshold)
  have score: "sameUpToOrder (JNum (Fin (8500001 / 10000000))) (JNum (Fin (17 / 20)))"
  proof (rule sameUpToOrder.rounded)
    show "\<bar>8500001 / 10000000 :: rat\<bar> < 10 ^ 21" by (rule small) simp
    show "\<bar>17 / 20 :: rat\<bar> < 10 ^ 21" by (rule small) simp
    show "roundedToSixDecimals (8500001 / 10000000) = roundedToSixDecimals (17 / 20)"
      by code_simp
  qed
  have entity: "sameUpToOrder
      (JObj [(''start'', JNum (Fin 1)), (''score'', JNum (Fin (8500001 / 10000000))),
             (''end'', JNum (Fin 2))])
      (JObj [(''end'', JNum (Fin 2)), (''score'', JNum (Fin (17 / 20))),
             (''start'', JNum (Fin 1))])"
    by (rule sameUpToOrder.keys) (auto simp: lookup_def intro: sameUpToOrder.same score)
  have entities: "sameUpToOrder ?found ?stored"
    by (rule sameUpToOrder.entries) (simp add: entity)
  note stable = buildResultSignature_stable [where H = refHost]
  from stable [where p = ?ab and q = ?ba, THEN conjunct1, rule_format, OF order]
  have one: "buildResultSignature refHost ?ab = buildResultSignature refHost ?ba" .
  from stable [where p = ?noisy and q = ?clean, THEN conjunct1, rule_format, OF noise]
  have two: "buildResultSignature refHost ?noisy = buildResultSignature refHost ?clean" .
  have three: "buildResultSignature refHost ?clean
      = ''{'' @ jsonQuote ''allowlist'' @ '':'' @ jsonQuote []
        @ '','' @ jsonQuote ''denylist'' @ '':'' @ jsonQuote []
        @ '','' @ jsonQuote ''entities'' @ '':'' @ ''[]''
        @ '','' @ jsonQuote ''entityTypes'' @ '':'' @ ''[]''
        @ '','' @ jsonQuote ''items'' @ '':'' @ ''[]''
        @ '','' @ jsonQuote ''language'' @ '':'' @ jsonQuote []
        @ '','' @ jsonQuote ''nerModel'' @ '':'' @ jsonQuote []
        @ '','' @ jsonQuote ''resultHtml'' @ '':'' @ jsonQuote []
        @ '','' @ jsonQuote ''resultText'' @ '':'' @ jsonQuote []
        @ '','' @ jsonQuote ''sourceHtml'' @ '':'' @ jsonQuote []
        @ '','' @ jsonQuote ''sourceText'' @ '':'' @ jsonQuote []
        @ '','' @ jsonQuote ''threshold'' @ '':'' @ ''0.3''
        @ ''}''"
    by code_simp
  from stable [where v = ?found and w = ?stored, THEN conjunct2, THEN conjunct1, rule_format,
      OF entities]
  have four: "stableStringify refHost ?found = stableStringify refHost ?stored" .
  have five: "stableStringify refHost ?stored = ''[{'' @ [CHR 0x22] @ ''end'' @ [CHR 0x22] @ '':2,'' @ [CHR 0x22] @ ''score'' @ [CHR 0x22]
         @ '':0.85,'' @ [CHR 0x22] @ ''start'' @ [CHR 0x22] @ '':1}]''"
    by code_simp
  have "\<bar>1234567 / 10000000 :: rat\<bar> < 10 ^ 21" by (rule small) simp
  from stable [THEN conjunct2, THEN conjunct2, THEN conjunct1, rule_format, OF this]
  have "stableStringify refHost (JNum (Fin (1234567 / 10000000)))
      = numberToString refHost (Fin (roundedToSixDecimals (1234567 / 10000000)))" .
  also have "\<dots> = ''0.123457''" by code_simp
  finally have six: "stableStringify refHost (JNum (Fin (1234567 / 10000000))) = ''0.123457''" .
  note null = stable [THEN conjunct2, THEN conjunct2, THEN conjunct2, THEN conjunct1, rule_format]
  have seven: "stableStringify refHost (JNum NaN) = ''null''"
    by (rule null) simp
  have eight: "stableStringify refHost (JNum NegInf) = ''null''"
    by (rule null) simp
  note replaced = stable [THEN conjunct2, THEN conjunct2, THEN conjunct2, THEN conjunct2,
      THEN conjunct2, THEN conjunct2, THEN conjunct1, rule_format]
  have nine: "buildResultSignature refHost (JObj [(''threshold'', JNum NaN)])
      = buildResultSignature refHost (JObj [(''threshold'', JNum (Fin (1 / 2)))])"
    by (rule replaced) simp
  have unread: "optProp (JObj [(''threshold'', JStr ''high'')]) ''threshold'' = JStr ''high''
      \<and> (\<forall>r. parseFloat refHost ''high'' \<noteq> Fin r)"
  proof
    show "optProp (JObj [(''threshold'', JStr ''high'')]) ''threshold'' = JStr ''high''"
      by (simp add: lookup_def)
    have "parseFloat refHost ''high'' = NaN" by code_simp
    then show "\<forall>r. parseFloat refHost ''high'' \<noteq> Fin r" by simp
  qed
  from stable [where p = "JObj [(''threshold'', JStr ''high'')]", THEN conjunct2, THEN conjunct2,
      THEN conjunct2, THEN conjunct2, THEN conjunct2, THEN conjunct1, rule_format, OF unread]
  have ten: "optProp (signaturePayload refHost (JObj [(''threshold'', JStr ''high'')])) ''threshold''
      = JNum (Fin (1 / 2))" .
  have eleven: "optProp (signaturePayload refHost
       (JObj [(''entityTypes'',
          JArr [JStr '' person '', JStr ''EMAIL'', JStr ''Person'', JNum (Fin 3), JStr []])]))
       ''entityTypes''
     = JArr [JStr ''EMAIL'', JStr ''PERSON'']"
    by code_simp
  from one two three four five six seven eight nine ten eleven show ?thesis
    by (intro conjI)
qed

end
